theory Spec2Isabelle
  imports Complex_Main
begin

section \<open>Time-of-day primitives (backend/availability/utils.py)\<close>

text \<open>
  Python text is modelled as \<open>string\<close>, a character being a code point below 256.
  \<open>str.split(sep)\<close> always returns at least one part. \<open>int(s)\<close> strips surrounding
  whitespace, takes an optional sign and then decimal digits, where single underscores
  may separate digits; anything else raises \<open>ValueError\<close>, which is \<open>None\<close> here.
  The whitespace that \<open>int\<close> strips is tab, line feed, vertical tab, form feed,
  carriage return and space, and, of the code points from 127 on, next line (133) and
  no-break space (160); the separators 28 to 31 are not stripped. The only decimal
  digits below 256 are \<open>0\<close> to \<open>9\<close>. A numeral of more than 4300 digits, the
  default limit of the interpreter, raises \<open>ValueError\<close> as well.
\<close>

fun split_on :: "char \<Rightarrow> string \<Rightarrow> string list" where
  "split_on sep [] = [[]]"
| "split_on sep (c # cs) =
     (if c = sep then [] # split_on sep cs
      else (case split_on sep cs of
              p # ps \<Rightarrow> (c # p) # ps
            | [] \<Rightarrow> [[c]]))"

definition is_space :: "char \<Rightarrow> bool" where
  "is_space c = ((of_char c :: nat) \<in> {9, 10, 11, 12, 13, 32, 133, 160})"

definition is_digit :: "char \<Rightarrow> bool" where
  "is_digit c = (48 \<le> (of_char c :: nat) \<and> (of_char c :: nat) \<le> 57)"

definition digit_val :: "char \<Rightarrow> nat" where
  "digit_val c = (of_char c :: nat) - 48"

definition strip :: "string \<Rightarrow> string" where
  "strip s = rev (dropWhile is_space (rev (dropWhile is_space s)))"

fun parse_digits :: "nat \<Rightarrow> string \<Rightarrow> nat option" where
  "parse_digits acc [] = Some acc"
| "parse_digits acc (c # cs) =
     (if is_digit c then parse_digits (10 * acc + digit_val c) cs
      else if c = CHR ''_'' then
        (case cs of
           [] \<Rightarrow> None
         | d # ds \<Rightarrow> if is_digit d then parse_digits (10 * acc + digit_val d) ds else None)
      else None)"

definition parse_unsigned :: "string \<Rightarrow> nat option" where
  "parse_unsigned s =
     (case s of
        [] \<Rightarrow> None
      | c # cs \<Rightarrow>
          if is_digit c \<and> length (filter is_digit s) \<le> 4300
          then parse_digits (digit_val c) cs else None)"

definition py_int :: "string \<Rightarrow> int option" where
  "py_int s =
     (case strip s of
        [] \<Rightarrow> None
      | c # cs \<Rightarrow>
          if c = CHR ''-'' then map_option (\<lambda>n. - int n) (parse_unsigned cs)
          else if c = CHR ''+'' then map_option int (parse_unsigned cs)
          else map_option int (parse_unsigned (c # cs)))"

text \<open>
  \<open>_time_to_minutes\<close>: \<open>int(parts[0])\<close>, then \<open>int(parts[1])\<close>; a \<open>ValueError\<close> or an
  \<open>IndexError\<close> at either step is caught and the function returns 0.
\<close>

definition time_to_minutes :: "string \<Rightarrow> int" where
  "time_to_minutes time_str =
     (let parts = split_on CHR '':'' time_str in
      case py_int (hd parts) of
        None \<Rightarrow> 0
      | Some hours \<Rightarrow>
          (case tl parts of
             [] \<Rightarrow> 0
           | p1 # _ \<Rightarrow>
               (case py_int p1 of
                  None \<Rightarrow> 0
                | Some minutes \<Rightarrow> hours * 60 + minutes)))"

text \<open>
  \<open>are_time_intervals_overlapping\<close>. The guard \<open>not all([...])\<close> rejects an empty
  string. On strings nothing inside the \<open>try\<close> block raises, since
  \<open>_time_to_minutes\<close> catches its own errors, so the handler of the outer \<open>try\<close> is
  never entered.
\<close>

definition are_time_intervals_overlapping ::
  "string \<Rightarrow> string \<Rightarrow> string \<Rightarrow> string \<Rightarrow> bool \<Rightarrow> bool" where
  "are_time_intervals_overlapping start1 end1 start2 end2 allow_adjacency =
     (if start1 = [] \<or> end1 = [] \<or> start2 = [] \<or> end2 = [] then False
      else
        let start1_minutes = time_to_minutes start1;
            end1_minutes = time_to_minutes end1;
            start2_minutes = time_to_minutes start2;
            end2_minutes = time_to_minutes end2;
            end1_minutes = (if end1_minutes < start1_minutes
                            then end1_minutes + 24 * 60 else end1_minutes);
            end2_minutes = (if end2_minutes < start2_minutes
                            then end2_minutes + 24 * 60 else end2_minutes)
        in if allow_adjacency
           then start1_minutes \<le> end2_minutes \<and> end1_minutes \<ge> start2_minutes
           else start1_minutes < end2_minutes \<and> end1_minutes > start2_minutes)"

text \<open>
  The specification's reading of the two sentences checked below: a well-formed
  endpoint is two digits, a colon, two digits, a colon, two digits, within the ranges of
  a time of day; and the midnight rule adds a day whenever the end is at or before the
  start.
\<close>

definition two_digits_below :: "nat \<Rightarrow> string \<Rightarrow> bool" where
  "two_digits_below bound s =
     (case s of
        [a, b] \<Rightarrow> is_digit a \<and> is_digit b \<and> 10 * digit_val a + digit_val b < bound
      | _ \<Rightarrow> False)"

definition well_formed_hms :: "string \<Rightarrow> bool" where
  "well_formed_hms s =
     (case split_on CHR '':'' s of
        [h, m, sec] \<Rightarrow> two_digits_below 24 h \<and> two_digits_below 60 m \<and> two_digits_below 60 sec
      | _ \<Rightarrow> False)"

definition spec_intervals_overlap ::
  "string \<Rightarrow> string \<Rightarrow> string \<Rightarrow> string \<Rightarrow> bool \<Rightarrow> bool" where
  "spec_intervals_overlap start1 end1 start2 end2 allow_adjacency =
     (let a = time_to_minutes start1;
          b = time_to_minutes end1;
          c = time_to_minutes start2;
          d = time_to_minutes end2;
          b = (if b \<le> a then b + 1440 else b);
          d = (if d \<le> c then d + 1440 else d)
      in if allow_adjacency then a \<le> d \<and> b \<ge> c else a < d \<and> b > c)"

section \<open>Data model\<close>

text \<open>
  Dates are proleptic Gregorian ordinals (\<open>date.toordinal()\<close>), so that adding a day is
  adding 1 and \<open>weekday()\<close> is \<open>(ordinal + 6) mod 7\<close> with Monday 0. A time of day is
  its minute from midnight, below 1440 for every Python \<open>time\<close>. Every aware datetime
  that the per-day pipeline builds carries the same \<open>ZoneInfo\<close> object, the
  organizer's (lines 282-284, 314-316, 403-404); Python compares and shifts such
  datetimes by their wall-clock fields, so a \<open>datetime\<close> is the wall-clock minute
  count and the zone travels beside it. The database stores absolute instants (UTC
  minutes), and a query converts its datetime arguments with the zone's offset.
\<close>

type_synonym date = int
type_synonym tod = nat
type_synonym datetime = int
type_synonym instant = int

record zone =
  utcoffset :: "datetime \<Rightarrow> int"
  fromutc :: "instant \<Rightarrow> datetime"
  dst :: "datetime \<Rightarrow> int"

type_synonym tzdb = "string \<Rightarrow> zone option"

datatype exn = ZoneInfoNotFoundError | TypeError | AttributeError

definition weekday :: "date \<Rightarrow> int" where
  "weekday d = (d + 6) mod 7"

definition combine :: "date \<Rightarrow> tod \<Rightarrow> datetime" where
  "combine d t = d * 1440 + int t"

definition minutes :: "int \<Rightarrow> int" where
  "minutes n = n"

definition days :: "int \<Rightarrow> int" where
  "days n = n * 1440"

definition to_instant :: "zone \<Rightarrow> datetime \<Rightarrow> instant" where
  "to_instant tz dt = dt - utcoffset tz dt"

record profile =
  timezone_name :: string
  reasonable_hours_start :: int
  reasonable_hours_end :: int

record user =
  user_id :: nat
  user_profile :: profile

record event_type =
  et_id :: nat
  duration :: int
  buffer_time_before :: "int option"
  buffer_time_after :: "int option"
  slot_interval_minutes :: "int option"
  is_group_event :: bool
  max_attendees :: int

record availability_rule =
  ar_organizer :: nat
  ar_day_of_week :: int
  ar_start_time :: tod
  ar_end_time :: tod
  ar_event_types :: "nat list"
  ar_is_active :: bool

record date_override_rule =
  dor_organizer :: nat
  dor_date :: date
  dor_is_available :: bool
  dor_start_time :: "tod option"
  dor_end_time :: "tod option"
  dor_event_types :: "nat list"
  dor_is_active :: bool

record recurring_blocked_time =
  rbt_organizer :: nat
  rbt_day_of_week :: int
  rbt_start_time :: tod
  rbt_end_time :: tod
  rbt_start_date :: "date option"
  rbt_end_date :: "date option"
  rbt_is_active :: bool

record blocked_time =
  bt_organizer :: nat
  bt_start_datetime :: instant
  bt_end_datetime :: instant
  bt_is_active :: bool

record booking =
  bk_organizer :: nat
  bk_event_type_id :: nat
  bk_start_time :: instant
  bk_end_time :: instant
  bk_status :: string
  bk_attendee_count :: int

record buffer_time =
  default_buffer_before :: int
  default_buffer_after :: int
  minimum_gap :: int
  bt_slot_interval_minutes :: int

record database =
  availability_rules :: "availability_rule list"
  date_override_rules :: "date_override_rule list"
  recurring_blocked_times :: "recurring_blocked_time list"
  blocked_times :: "blocked_time list"
  bookings :: "booking list"
  buffer_times :: "nat \<Rightarrow> buffer_time option"

text \<open>
  A slot is a Python dict. The keys \<open>start_time\<close>, \<open>end_time\<close> and
  \<open>duration_minutes\<close> are always present; the enrichment steps add the others, which
  are \<open>None\<close> until then. ISO strings of local times are kept as the local minute
  count. \<open>fairness_score\<close>, a float quotient of two small integers in the code, is
  the rational quotient here.
\<close>

record invitee_time =
  it_start_time :: datetime
  it_end_time :: datetime
  start_hour :: int
  end_hour :: int
  is_reasonable :: bool

record slot =
  start_time :: datetime
  end_time :: datetime
  duration_minutes :: int
  invitee_times :: "(string \<times> invitee_time) list option"
  fairness_score :: "rat option"
  local_start_time :: "datetime option"
  local_end_time :: "datetime option"
  is_dst :: "bool option"

datatype 'a outcome = Returns 'a | Raises exn | Diverges

text \<open>
  Modelled from the spec: the model methods \<open>applies_to_event_type\<close>,
  \<open>spans_midnight\<close> and \<open>applies_to_date\<close> of models.py, which is not among the
  sources. The specification gives them as: an empty scope matches every event type,
  otherwise membership; \<open>spans_midnight\<close> iff the end time of day is at or before the
  start; \<open>applies_to_date d\<close> iff start-date \<open>\<le> d \<le>\<close> end-date, an open bound being
  unbounded.
\<close>

definition applies_to_event_type :: "nat list \<Rightarrow> event_type \<Rightarrow> bool" where
  "applies_to_event_type scope et = (scope = [] \<or> et_id et \<in> set scope)"

definition spans_midnight :: "tod \<Rightarrow> tod \<Rightarrow> bool" where
  "spans_midnight start_t end_t = (end_t \<le> start_t)"

definition applies_to_date :: "recurring_blocked_time \<Rightarrow> date \<Rightarrow> bool" where
  "applies_to_date block d =
     ((case rbt_start_date block of None \<Rightarrow> True | Some s \<Rightarrow> s \<le> d) \<and>
      (case rbt_end_date block of None \<Rightarrow> True | Some e \<Rightarrow> d \<le> e))"

section \<open>Block filter\<close>

definition is_slot_blocked_by_one_time :: "database \<Rightarrow> zone \<Rightarrow> user \<Rightarrow> slot \<Rightarrow> bool" where
  "is_slot_blocked_by_one_time db tz organizer slot =
     (let slot_start = start_time slot;
          slot_end = end_time slot;
          blocked =
            filter (\<lambda>b. bt_organizer b = user_id organizer \<and> bt_is_active b \<and>
                         bt_start_datetime b < to_instant tz slot_end \<and>
                         bt_end_datetime b > to_instant tz slot_start)
              (blocked_times db)
      in blocked \<noteq> [])"

fun recurring_loop :: "slot \<Rightarrow> date \<Rightarrow> recurring_blocked_time list \<Rightarrow> bool" where
  "recurring_loop slot target_date [] = False"
| "recurring_loop slot target_date (block # blocks) =
     (if \<not> applies_to_date block target_date then recurring_loop slot target_date blocks
      else
        let block_start = combine target_date (rbt_start_time block);
            block_end = combine target_date (rbt_end_time block);
            block_end = (if spans_midnight (rbt_start_time block) (rbt_end_time block)
                         then block_end + days 1 else block_end)
        in if block_start < end_time slot \<and> block_end > start_time slot then True
           else recurring_loop slot target_date blocks)"

definition is_slot_blocked_by_recurring :: "database \<Rightarrow> user \<Rightarrow> slot \<Rightarrow> date \<Rightarrow> bool" where
  "is_slot_blocked_by_recurring db organizer slot target_date =
     (let day_of_week = weekday target_date;
          recurring_blocks =
            filter (\<lambda>b. rbt_organizer b = user_id organizer \<and>
                         rbt_day_of_week b = day_of_week \<and> rbt_is_active b)
              (recurring_blocked_times db)
      in recurring_loop slot target_date recurring_blocks)"

definition is_slot_blocked :: "database \<Rightarrow> zone \<Rightarrow> user \<Rightarrow> slot \<Rightarrow> date \<Rightarrow> bool" where
  "is_slot_blocked db tz organizer slot target_date =
     (is_slot_blocked_by_one_time db tz organizer slot \<or>
      is_slot_blocked_by_recurring db organizer slot target_date)"

text \<open>
  \<open>is_slot_blocked_by_override\<close> (lines 798-849) is defined in the module and called
  from nowhere in it.
\<close>

fun override_loop :: "slot \<Rightarrow> date \<Rightarrow> date_override_rule list \<Rightarrow> bool" where
  "override_loop slot target_date [] = False"
| "override_loop slot target_date (ov # ovs) =
     (if \<not> dor_is_available ov then True
      else
        (case (dor_start_time ov, dor_end_time ov) of
           (Some st, Some en) \<Rightarrow>
             let override_start = combine target_date st;
                 override_end = combine target_date en;
                 override_end = (if spans_midnight st en
                                 then override_end + days 1 else override_end)
             in if \<not> (override_start \<le> start_time slot \<and> end_time slot \<le> override_end)
                then True
                else override_loop slot target_date ovs
         | _ \<Rightarrow> override_loop slot target_date ovs))"

definition applicable_overrides ::
  "database \<Rightarrow> user \<Rightarrow> event_type \<Rightarrow> date \<Rightarrow> date_override_rule list" where
  "applicable_overrides db organizer et target_date =
     (let date_overrides =
            filter (\<lambda>ov. dor_organizer ov = user_id organizer \<and>
                          dor_date ov = target_date \<and> dor_is_active ov)
              (date_override_rules db)
      in filter (\<lambda>ov. applies_to_event_type (dor_event_types ov) et) date_overrides)"

definition is_slot_blocked_by_override ::
  "database \<Rightarrow> user \<Rightarrow> event_type \<Rightarrow> slot \<Rightarrow> date \<Rightarrow> bool" where
  "is_slot_blocked_by_override db organizer et slot target_date =
     (let overrides = applicable_overrides db organizer et target_date in
      if overrides = [] then False else override_loop slot target_date overrides)"

section \<open>Booking conflict filter\<close>

fun booking_loop ::
  "event_type \<Rightarrow> int \<Rightarrow> int \<Rightarrow> instant \<Rightarrow> instant \<Rightarrow> int \<Rightarrow> booking list \<Rightarrow> bool" where
  "booking_loop et attendee_count gap protected_start protected_end total_attendees [] = False"
| "booking_loop et attendee_count gap protected_start protected_end total_attendees (b # bs) =
     (let booking_protected_start = bk_start_time b - minutes gap;
          booking_protected_end = bk_end_time b + minutes gap
      in if booking_protected_start < protected_end \<and> booking_protected_end > protected_start
         then
           (if is_group_event et \<and> bk_event_type_id b = et_id et then
              (if total_attendees + attendee_count > max_attendees et then True
               else booking_loop et attendee_count gap protected_start protected_end total_attendees bs)
            else True)
         else booking_loop et attendee_count gap protected_start protected_end total_attendees bs)"

definition existing_bookings ::
  "database \<Rightarrow> user \<Rightarrow> instant \<Rightarrow> instant \<Rightarrow> booking list" where
  "existing_bookings db organizer protected_start protected_end =
     filter (\<lambda>b. bk_organizer b = user_id organizer \<and> bk_status b = ''confirmed'' \<and>
                  bk_start_time b < protected_end \<and> bk_end_time b > protected_start)
       (bookings db)"

definition overlapping_bookings ::
  "database \<Rightarrow> user \<Rightarrow> event_type \<Rightarrow> instant \<Rightarrow> instant \<Rightarrow> booking list" where
  "overlapping_bookings db organizer et slot_start slot_end =
     filter (\<lambda>b. bk_organizer b = user_id organizer \<and> bk_event_type_id b = et_id et \<and>
                  bk_status b = ''confirmed'' \<and>
                  bk_start_time b < slot_end \<and> bk_end_time b > slot_start)
       (bookings db)"

definition total_confirmed_attendees ::
  "database \<Rightarrow> user \<Rightarrow> event_type \<Rightarrow> instant \<Rightarrow> instant \<Rightarrow> int" where
  "total_confirmed_attendees db organizer et slot_start slot_end =
     sum_list (map bk_attendee_count (overlapping_bookings db organizer et slot_start slot_end))"

definition is_slot_conflicting_with_bookings ::
  "database \<Rightarrow> zone \<Rightarrow> user \<Rightarrow> event_type \<Rightarrow> slot \<Rightarrow> int \<Rightarrow> int \<Rightarrow> int \<Rightarrow> int \<Rightarrow> bool" where
  "is_slot_conflicting_with_bookings db tz organizer et slot attendee_count
       buffer_before buffer_after gap =
     (let slot_start = start_time slot;
          slot_end = end_time slot;
          protected_start = to_instant tz (slot_start - minutes buffer_before);
          protected_end = to_instant tz (slot_end + minutes buffer_after)
      in booking_loop et attendee_count gap protected_start protected_end
           (total_confirmed_attendees db organizer et
              (to_instant tz slot_start) (to_instant tz slot_end))
           (existing_bookings db organizer protected_start protected_end))"

section \<open>Rule resolver\<close>

definition merge_step ::
  "(datetime \<times> datetime) list \<Rightarrow> datetime \<times> datetime \<Rightarrow> (datetime \<times> datetime) list" where
  "merge_step merged cur =
     (let (current_start, current_end) = cur;
          (last_start, last_end) = last merged
      in if current_start \<le> last_end
         then butlast merged @ [(last_start, max last_end current_end)]
         else merged @ [(current_start, current_end)])"

definition merge_overlapping_intervals ::
  "(datetime \<times> datetime) list \<Rightarrow> (datetime \<times> datetime) list" where
  "merge_overlapping_intervals intervals =
     (if intervals = [] then []
      else
        let sorted_intervals = sort_key fst intervals
        in foldl merge_step [hd sorted_intervals] (tl sorted_intervals))"

text \<open>
  The two loops of \<open>_get_daily_available_intervals\<close>. \<open>ZoneInfo(organizer_timezone)\<close>
  is evaluated inside the loop body, so an unknown zone raises only when an interval is
  actually built.
\<close>

fun override_intervals ::
  "tzdb \<Rightarrow> string \<Rightarrow> date \<Rightarrow> date_override_rule list \<Rightarrow> exn + (datetime \<times> datetime) list" where
  "override_intervals zones organizer_timezone target_date [] = Inr []"
| "override_intervals zones organizer_timezone target_date (ov # ovs) =
     (case (dor_is_available ov, dor_start_time ov, dor_end_time ov) of
        (True, Some st, Some en) \<Rightarrow>
          let start_dt = combine target_date st;
              end_dt = combine target_date en;
              end_dt = (if spans_midnight st en then end_dt + days 1 else end_dt)
          in (case zones organizer_timezone of
                None \<Rightarrow> Inl ZoneInfoNotFoundError
              | Some tz \<Rightarrow>
                  (case override_intervals zones organizer_timezone target_date ovs of
                     Inl e \<Rightarrow> Inl e
                   | Inr intervals \<Rightarrow> Inr ((start_dt, end_dt) # intervals)))
      | _ \<Rightarrow> override_intervals zones organizer_timezone target_date ovs)"

fun rule_intervals ::
  "tzdb \<Rightarrow> string \<Rightarrow> date \<Rightarrow> availability_rule list \<Rightarrow> exn + (datetime \<times> datetime) list" where
  "rule_intervals zones organizer_timezone target_date [] = Inr []"
| "rule_intervals zones organizer_timezone target_date (rule # rules) =
     (let start_dt = combine target_date (ar_start_time rule);
          end_dt = combine target_date (ar_end_time rule);
          end_dt = (if spans_midnight (ar_start_time rule) (ar_end_time rule)
                    then end_dt + days 1 else end_dt)
      in (case zones organizer_timezone of
            None \<Rightarrow> Inl ZoneInfoNotFoundError
          | Some tz \<Rightarrow>
              (case rule_intervals zones organizer_timezone target_date rules of
                 Inl e \<Rightarrow> Inl e
               | Inr intervals \<Rightarrow> Inr ((start_dt, end_dt) # intervals))))"

definition applicable_rules ::
  "database \<Rightarrow> user \<Rightarrow> event_type \<Rightarrow> date \<Rightarrow> availability_rule list" where
  "applicable_rules db organizer et target_date =
     (let day_of_week = weekday target_date;
          rules =
            filter (\<lambda>r. ar_organizer r = user_id organizer \<and>
                         ar_day_of_week r = day_of_week \<and> ar_is_active r)
              (availability_rules db)
      in filter (\<lambda>r. applies_to_event_type (ar_event_types r) et) rules)"

definition get_daily_available_intervals ::
  "database \<Rightarrow> tzdb \<Rightarrow> user \<Rightarrow> event_type \<Rightarrow> date \<Rightarrow> string
     \<Rightarrow> exn + (datetime \<times> datetime) list" where
  "get_daily_available_intervals db zones organizer et target_date organizer_timezone =
     (let overrides = applicable_overrides db organizer et target_date in
      if overrides \<noteq> []
      then override_intervals zones organizer_timezone target_date overrides
      else
        (case rule_intervals zones organizer_timezone target_date
                (applicable_rules db organizer et target_date) of
           Inl e \<Rightarrow> Inl e
         | Inr intervals \<Rightarrow> Inr (merge_overlapping_intervals intervals)))"

section \<open>Slot enumerator and the per-day pipeline\<close>

text \<open>
  The \<open>while\<close> loop of \<open>_generate_slots_from_interval\<close>. Datetimes are unbounded
  here, so with a stride of zero or less the loop, once entered, never leaves: that
  outcome is \<open>None\<close>.
\<close>

function generate_slots_from_interval ::
  "datetime \<Rightarrow> datetime \<Rightarrow> int \<Rightarrow> int \<Rightarrow> slot list option" where
  "generate_slots_from_interval current_time interval_end dur slot_interval =
     (if current_time + minutes dur \<le> interval_end then
        (if slot_interval \<le> 0 then None
         else
           map_option
             (Cons \<lparr>start_time = current_time, end_time = current_time + minutes dur,
                     duration_minutes = dur, invitee_times = None, fairness_score = None,
                     local_start_time = None, local_end_time = None, is_dst = None\<rparr>)
             (generate_slots_from_interval (current_time + minutes slot_interval)
                interval_end dur slot_interval))
      else Some [])"
  by pat_completeness auto
termination
  by (relation "measure (\<lambda>(c, e, d, s). nat (e - c - d + 1))") (auto simp: minutes_def)

fun potential_slots :: "(datetime \<times> datetime) list \<Rightarrow> int \<Rightarrow> int \<Rightarrow> slot list option" where
  "potential_slots [] dur slot_interval = Some []"
| "potential_slots ((interval_start, interval_end) # intervals) dur slot_interval =
     (case generate_slots_from_interval interval_start interval_end dur slot_interval of
        None \<Rightarrow> None
      | Some interval_slots \<Rightarrow>
          map_option ((@) interval_slots) (potential_slots intervals dur slot_interval))"

text \<open>
  \<open>_calculate_daily_slots\<close>. The slots inherit the tzinfo of the intervals, the zone
  that \<open>ZoneInfo(organizer_timezone)\<close> returned; the parameter \<open>invitee_timezone\<close> is
  not used by the body.
\<close>

definition calculate_daily_slots ::
  "database \<Rightarrow> tzdb \<Rightarrow> user \<Rightarrow> event_type \<Rightarrow> date \<Rightarrow> string \<Rightarrow> string \<Rightarrow> int \<Rightarrow> int \<Rightarrow> int
     \<Rightarrow> int \<Rightarrow> int \<Rightarrow> slot list outcome" where
  "calculate_daily_slots db zones organizer et target_date organizer_timezone
       invitee_timezone attendee_count buffer_before buffer_after gap slot_interval =
     (case get_daily_available_intervals db zones organizer et target_date
             organizer_timezone of
        Inl e \<Rightarrow> Raises e
      | Inr available_intervals \<Rightarrow>
          if available_intervals = [] then Returns []
          else
            (case zones organizer_timezone of
               None \<Rightarrow> Raises ZoneInfoNotFoundError
             | Some tz \<Rightarrow>
                 (case potential_slots available_intervals (duration et) slot_interval of
                    None \<Rightarrow> Diverges
                  | Some potential \<Rightarrow>
                      Returns
                        (filter
                           (\<lambda>slot.
                              \<not> is_slot_blocked db tz organizer slot target_date \<and>
                              \<not> is_slot_conflicting_with_bookings db tz organizer et slot
                                  attendee_count buffer_before buffer_after gap)
                           potential))))"

section \<open>Multi-invitee intersection and the orchestrator\<close>

fun dict_set :: "'k \<Rightarrow> 'v \<Rightarrow> ('k \<times> 'v) list \<Rightarrow> ('k \<times> 'v) list" where
  "dict_set k v [] = [(k, v)]"
| "dict_set k v ((k', v') # kvs) =
     (if k = k' then (k, v) # kvs else (k', v') # dict_set k v kvs)"

definition hour :: "datetime \<Rightarrow> int" where
  "hour dt = (dt mod 1440) div 60"

definition astimezone :: "zone \<Rightarrow> zone \<Rightarrow> datetime \<Rightarrow> datetime" where
  "astimezone from_tz to_tz dt = fromutc to_tz (to_instant from_tz dt)"

text \<open>
  The inner loop over the invitee zones: a zone that cannot be resolved is skipped by
  the \<open>except\<close> branch. \<open>slot_tz\<close> is the tzinfo of the slot's datetimes.
\<close>

fun invitee_loop ::
  "tzdb \<Rightarrow> zone \<Rightarrow> slot \<Rightarrow> int \<Rightarrow> int \<Rightarrow> string list
     \<Rightarrow> (string \<times> invitee_time) list \<Rightarrow> nat \<Rightarrow> (string \<times> invitee_time) list \<times> nat" where
  "invitee_loop zones slot_tz slot reasonable_start reasonable_end [] seen reasonable_count =
     (seen, reasonable_count)"
| "invitee_loop zones slot_tz slot reasonable_start reasonable_end (tz # tzs) seen
       reasonable_count =
     (case zones tz of
        None \<Rightarrow>
          invitee_loop zones slot_tz slot reasonable_start reasonable_end tzs seen
            reasonable_count
      | Some z \<Rightarrow>
          let local_start = astimezone slot_tz z (start_time slot);
              local_end = astimezone slot_tz z (end_time slot);
              info = \<lparr>it_start_time = local_start, it_end_time = local_end,
                      start_hour = hour local_start, end_hour = hour local_end,
                      is_reasonable = (reasonable_start \<le> hour local_start \<and>
                                       hour local_start \<le> reasonable_end)\<rparr>
          in invitee_loop zones slot_tz slot reasonable_start reasonable_end tzs
               (dict_set tz info seen)
               (if is_reasonable info then reasonable_count + 1 else reasonable_count))"

definition enhance_slot :: "tzdb \<Rightarrow> zone \<Rightarrow> int \<Rightarrow> int \<Rightarrow> string list \<Rightarrow> slot \<Rightarrow> slot" where
  "enhance_slot zones slot_tz reasonable_start reasonable_end invitee_timezones slot =
     (let (seen, reasonable_count) =
            invitee_loop zones slot_tz slot reasonable_start reasonable_end
              invitee_timezones [] 0;
          score = (if invitee_timezones \<noteq> []
                   then of_nat reasonable_count / of_nat (length invitee_timezones)
                   else 1)
      in slot\<lparr>invitee_times := Some seen, fairness_score := Some score\<rparr>)"

definition fairness_key :: "slot \<Rightarrow> rat" where
  "fairness_key x = (case fairness_score x of Some f \<Rightarrow> f | None \<Rightarrow> 0)"

text \<open>
  \<open>list.sort(key=..., reverse=True)\<close> is stable: elements with equal keys keep their
  order. That is the stable ascending sort on the negated key.
\<close>

definition calculate_multi_invitee_intersection ::
  "tzdb \<Rightarrow> zone \<Rightarrow> slot list \<Rightarrow> string list \<Rightarrow> user \<Rightarrow> slot list" where
  "calculate_multi_invitee_intersection zones slot_tz slots invitee_timezones organizer =
     (let reasonable_start = reasonable_hours_start (user_profile organizer);
          reasonable_end = reasonable_hours_end (user_profile organizer);
          enhanced_slots =
            map (enhance_slot zones slot_tz reasonable_start reasonable_end invitee_timezones)
              slots
      in sort_key (\<lambda>x. - fairness_key x) enhanced_slots)"

definition enhance_slots_with_dst_info :: "tzdb \<Rightarrow> zone \<Rightarrow> slot list \<Rightarrow> string \<Rightarrow> slot list" where
  "enhance_slots_with_dst_info zones slot_tz slots invitee_timezone =
     map (\<lambda>slot.
            case zones invitee_timezone of
              None \<Rightarrow> slot
            | Some z \<Rightarrow>
                let local_start = astimezone slot_tz z (start_time slot);
                    local_end = astimezone slot_tz z (end_time slot)
                in slot\<lparr>local_start_time := Some local_start,
                         local_end_time := Some local_end,
                         is_dst := Some (dst z local_start \<noteq> 0)\<rparr>)
       slots"

definition validate_timezone :: "tzdb \<Rightarrow> string \<Rightarrow> bool" where
  "validate_timezone zones tz_string = (tz_string \<noteq> [] \<and> zones tz_string \<noteq> None)"

definition py_or :: "int option \<Rightarrow> int \<Rightarrow> int" where
  "py_or x y = (case x of None \<Rightarrow> y | Some v \<Rightarrow> if v = 0 then y else v)"

text \<open>
  \<open>BufferTime.objects.get_or_create(organizer=organizer)\<close>: there is at most one row
  per organizer, and a missing one is inserted with the field defaults of models.py,
  which is not among the sources; the defaults are a parameter.
\<close>

definition get_or_create_buffer_time ::
  "buffer_time \<Rightarrow> database \<Rightarrow> user \<Rightarrow> buffer_time \<times> database" where
  "get_or_create_buffer_time defaults db organizer =
     (case buffer_times db (user_id organizer) of
        Some row \<Rightarrow> (row, db)
      | None \<Rightarrow>
          (defaults, db\<lparr>buffer_times := (buffer_times db)(user_id organizer \<mapsto> defaults)\<rparr>))"

record performance_metrics =
  pm_duration :: rat
  total_slots_calculated :: "nat option"
  date_range_days :: "int option"

record calc_result =
  slots :: "slot list"
  warnings :: "string list"
  metrics :: performance_metrics

function day_loop :: "(date \<Rightarrow> slot list outcome) \<Rightarrow> date \<Rightarrow> date \<Rightarrow> slot list outcome" where
  "day_loop daily current_date end_date =
     (if current_date \<le> end_date then
        (case daily current_date of
           Returns daily_slots \<Rightarrow>
             (case day_loop daily (current_date + 1) end_date of
                Returns all_slots \<Rightarrow> Returns (daily_slots @ all_slots)
              | Raises e \<Rightarrow> Raises e
              | Diverges \<Rightarrow> Diverges)
         | Raises e \<Rightarrow> Raises e
         | Diverges \<Rightarrow> Diverges)
      else Returns [])"
  by pat_completeness auto
termination
  by (relation "measure (\<lambda>(f, c, e). nat (e - c + 1))") auto

text \<open>
  Lines 147-170: the effective buffers and stride, then the loop over the dates. This
  is the list \<open>all_slots\<close> before any multi-invitee sorting.
\<close>

definition collect_all_slots ::
  "database \<Rightarrow> tzdb \<Rightarrow> buffer_time \<Rightarrow> user \<Rightarrow> event_type \<Rightarrow> date \<Rightarrow> date \<Rightarrow> string \<Rightarrow> string
     \<Rightarrow> int \<Rightarrow> slot list outcome" where
  "collect_all_slots db zones buffer_settings organizer et start_date end_date
       organizer_timezone invitee_timezone attendee_count =
     (let buffer_before = py_or (buffer_time_before et) (default_buffer_before buffer_settings);
          buffer_after = py_or (buffer_time_after et) (default_buffer_after buffer_settings);
          gap = minimum_gap buffer_settings;
          slot_interval =
            py_or (slot_interval_minutes et) (bt_slot_interval_minutes buffer_settings)
      in day_loop
           (\<lambda>d. calculate_daily_slots db zones organizer et d organizer_timezone
                  invitee_timezone attendee_count buffer_before buffer_after gap
                  slot_interval)
           start_date end_date)"

definition utc_zone :: zone where
  "utc_zone = \<lparr>utcoffset = (\<lambda>_. 0), fromutc = (\<lambda>t. t), dst = (\<lambda>_. 0)\<rparr>"

definition str_exn :: "exn \<Rightarrow> string" where
  "str_exn e =
     (case e of
        ZoneInfoNotFoundError \<Rightarrow> ''No time zone found''
      | TypeError \<Rightarrow> ''TypeError''
      | AttributeError \<Rightarrow> ''AttributeError'')"

text \<open>
  \<open>calculate_available_slots\<close>. \<open>elapsed\<close> stands for the two clock readings. The
  slots are non-empty only if \<open>ZoneInfo(organizer_timezone)\<close> succeeded, so the zone
  chosen when it fails is applied to the empty list alone. The \<open>except\<close> branch turns
  every exception into a result without slots whose metrics hold the duration only.
\<close>

definition calculate_available_slots ::
  "database \<Rightarrow> tzdb \<Rightarrow> buffer_time \<Rightarrow> rat \<Rightarrow> user \<Rightarrow> event_type \<Rightarrow> date \<Rightarrow> date \<Rightarrow> string
     \<Rightarrow> int \<Rightarrow> string list option \<Rightarrow> (calc_result \<times> database) outcome" where
  "calculate_available_slots db zones defaults elapsed organizer et start_date end_date
       invitee_timezone attendee_count invitee_timezones =
     (let warnings0 =
            (if \<not> validate_timezone zones invitee_timezone
             then [''Invalid invitee timezone: '' @ invitee_timezone] else []);
          invitee_timezone =
            (if \<not> validate_timezone zones invitee_timezone then ''UTC'' else invitee_timezone);
          warnings1 =
            warnings0 @
            (case invitee_timezones of
               None \<Rightarrow> []
             | Some tzs \<Rightarrow>
                 map (\<lambda>tz. ''Invalid timezone in list: '' @ tz)
                   (filter (\<lambda>tz. \<not> validate_timezone zones tz) tzs));
          invitee_timezones =
            map_option (filter (validate_timezone zones)) invitee_timezones;
          organizer_timezone = timezone_name (user_profile organizer);
          warnings2 =
            warnings1 @
            (if \<not> validate_timezone zones organizer_timezone
             then [''Invalid organizer timezone, using UTC''] else []);
          organizer_timezone =
            (if \<not> validate_timezone zones organizer_timezone
             then ''UTC'' else organizer_timezone);
          (buffer_settings, db') = get_or_create_buffer_time defaults db organizer
      in case collect_all_slots db' zones buffer_settings organizer et start_date end_date
                organizer_timezone invitee_timezone attendee_count of
           Diverges \<Rightarrow> Diverges
         | Raises e \<Rightarrow>
             Returns
               (\<lparr>slots = [],
                 warnings = warnings2 @ [''Calculation error: '' @ str_exn e],
                 metrics = \<lparr>pm_duration = elapsed, total_slots_calculated = None,
                            date_range_days = None\<rparr>\<rparr>, db')
         | Returns all_slots \<Rightarrow>
             let slot_tz = (case zones organizer_timezone of Some z \<Rightarrow> z | None \<Rightarrow> utc_zone);
                 all_slots =
                   (case invitee_timezones of
                      None \<Rightarrow> all_slots
                    | Some tzs \<Rightarrow>
                        if length tzs > 1
                        then calculate_multi_invitee_intersection zones slot_tz all_slots tzs
                               organizer
                        else all_slots);
                 enhanced_slots =
                   enhance_slots_with_dst_info zones slot_tz all_slots invitee_timezone
             in Returns
                  (\<lparr>slots = enhanced_slots,
                    warnings = warnings2,
                    metrics = \<lparr>pm_duration = elapsed,
                               total_slots_calculated = Some (length enhanced_slots),
                               date_range_days = Some (end_date - start_date + 1)\<rparr>\<rparr>, db'))"

declare day_loop.simps [simp del]
declare generate_slots_from_interval.simps [simp del]

section \<open>Cache key\<close>

text \<open>
  \<open>str(n)\<close> of an integer is its decimal numeral, and \<open>date.isoformat()\<close> prints
  \<open>%04d-%02d-%02d\<close> of year, month and day. The cache key is the one place that
  prints dates, so it takes them by their calendar fields. The identifiers are typed
  \<open>str\<close>, on which \<open>str()\<close> is the identity.
\<close>

definition digit_char :: "nat \<Rightarrow> char" where
  "digit_char n = char_of (48 + n)"

fun str_nat :: "nat \<Rightarrow> string" where
  "str_nat n = (if n < 10 then [digit_char n] else str_nat (n div 10) @ [digit_char (n mod 10)])"

declare str_nat.simps [simp del]

definition str_int :: "int \<Rightarrow> string" where
  "str_int i = (if i < 0 then CHR ''-'' # str_nat (nat (- i)) else str_nat (nat i))"

definition zfill :: "nat \<Rightarrow> string \<Rightarrow> string" where
  "zfill width s = replicate (width - length s) CHR ''0'' @ s"

record calendar_date =
  year :: nat
  month :: nat
  day :: nat

definition isoformat :: "calendar_date \<Rightarrow> string" where
  "isoformat d =
     zfill 4 (str_nat (year d)) @ ''-'' @ zfill 2 (str_nat (month d)) @ ''-'' @
     zfill 2 (str_nat (day d))"

fun join :: "string \<Rightarrow> string list \<Rightarrow> string" where
  "join sep [] = []"
| "join sep [x] = x"
| "join sep (x # y # ys) = x @ sep @ join sep (y # ys)"

definition get_cache_key_for_availability ::
  "string \<Rightarrow> string \<Rightarrow> calendar_date \<Rightarrow> calendar_date \<Rightarrow> string \<Rightarrow> int \<Rightarrow> string" where
  "get_cache_key_for_availability organizer_id event_type_id start_date end_date
       invitee_timezone attendee_count =
     (let key_parts =
            [''availability'', organizer_id, event_type_id, isoformat start_date,
             isoformat end_date, invitee_timezone, str_int attendee_count]
      in join '':'' key_parts)"

text \<open>The value of a decimal numeral, used to read a printed number back.\<close>

definition dec_value :: "string \<Rightarrow> nat" where
  "dec_value s = foldl (\<lambda>a c. 10 * a + digit_val c) 0 s"

definition ex_date :: calendar_date where
  "ex_date = \<lparr>year = 2025, month = 1, day = 6\<rparr>"

section \<open>Dirty-set protocol\<close>

text \<open>
  The cache backend is reached through \<open>cache.get(key, default)\<close>,
  \<open>cache.set(key, value, timeout)\<close> and \<open>cache.delete(key)\<close>: an entry is kept with
  the clock time at which its timeout ends, and \<open>get\<close> gives the default for a key
  that is absent or whose timeout has ended. Clock readings are seconds; every call
  takes the reading \<open>now\<close> at which it runs, which \<open>mark_cache_dirty\<close> also stores
  as the timestamp of the change.
\<close>

datatype pyval = PStr string | PInt int

record dirty_data =
  dd_organizer_id :: string
  requires_full_invalidation :: bool
  changes :: "(string \<times> pyval) list list"

datatype cache_value = DirtyData dirty_data | OrganizerSet "string set"

type_synonym cache = "string \<Rightarrow> (cache_value \<times> int) option"

definition cache_get :: "cache \<Rightarrow> int \<Rightarrow> string \<Rightarrow> cache_value option" where
  "cache_get c now key =
     (case c key of
        None \<Rightarrow> None
      | Some (v, expires) \<Rightarrow> if expires \<le> now then None else Some v)"

definition cache_set :: "cache \<Rightarrow> int \<Rightarrow> string \<Rightarrow> cache_value \<Rightarrow> int \<Rightarrow> cache" where
  "cache_set c now key v timeout = c(key \<mapsto> (v, now + timeout))"

definition cache_delete :: "cache \<Rightarrow> string \<Rightarrow> cache" where
  "cache_delete c key = c(key := None)"

definition dirty_key :: "string \<Rightarrow> string" where
  "dirty_key organizer_id = ''dirty_cache:'' @ organizer_id"

definition dirty_list_key :: string where
  "dirty_list_key = ''dirty_cache_list''"

text \<open>
  The tail shared by \<open>mark_cache_dirty\<close> and \<open>clear_dirty_flags\<close>: read the set
  under \<open>dirty_cache_list\<close>, change it, store it for an hour. A value of the wrong
  type makes the Python operation raise; the cache then stays as it was.
\<close>

definition update_dirty_list ::
  "cache \<Rightarrow> int \<Rightarrow> (string set \<Rightarrow> string set) \<Rightarrow> exn option \<times> cache" where
  "update_dirty_list c now f =
     (case cache_get c now dirty_list_key of
        None \<Rightarrow> (None, cache_set c now dirty_list_key (OrganizerSet (f {})) 3600)
      | Some (OrganizerSet dirty_organizers) \<Rightarrow>
          (None, cache_set c now dirty_list_key (OrganizerSet (f dirty_organizers)) 3600)
      | Some (DirtyData _) \<Rightarrow> (Some AttributeError, c))"

definition mark_cache_dirty ::
  "cache \<Rightarrow> int \<Rightarrow> string \<Rightarrow> string \<Rightarrow> bool \<Rightarrow> (string \<times> pyval) list \<Rightarrow> exn option \<times> cache" where
  "mark_cache_dirty c now organizer_id cache_type requires_full kwargs =
     (case (case cache_get c now (dirty_key organizer_id) of
              None \<Rightarrow>
                Some \<lparr>dd_organizer_id = organizer_id, requires_full_invalidation = False,
                      changes = []\<rparr>
            | Some (DirtyData d) \<Rightarrow> Some d
            | Some (OrganizerSet _) \<Rightarrow> None) of
        None \<Rightarrow> (Some TypeError, c)
      | Some dirty_data \<Rightarrow>
          let dirty_data =
                (if requires_full then dirty_data\<lparr>requires_full_invalidation := True\<rparr>
                 else dirty_data);
              change_data =
                foldl (\<lambda>d (k, v). dict_set k v d)
                  [(''cache_type'', PStr cache_type), (''timestamp'', PInt now)] kwargs;
              dirty_data = dirty_data\<lparr>changes := changes dirty_data @ [change_data]\<rparr>;
              c = cache_set c now (dirty_key organizer_id) (DirtyData dirty_data) 3600
          in update_dirty_list c now (insert organizer_id))"

definition clear_dirty_flags :: "cache \<Rightarrow> int \<Rightarrow> string \<Rightarrow> exn option \<times> cache" where
  "clear_dirty_flags c now organizer_id =
     (let c = cache_delete c (dirty_key organizer_id)
      in update_dirty_list c now (\<lambda>dirty_organizers. dirty_organizers - {organizer_id}))"

text \<open>
  A sequence of calls, each with its clock reading. The calls come from separate
  requests, so one that raises does not stop the ones after it.
\<close>

datatype cache_call =
  MarkDirty string string bool "(string \<times> pyval) list"
| ClearDirty string

fun perform :: "cache \<Rightarrow> int \<times> cache_call \<Rightarrow> cache" where
  "perform c (now, MarkDirty organizer_id cache_type requires_full kwargs) =
     snd (mark_cache_dirty c now organizer_id cache_type requires_full kwargs)"
| "perform c (now, ClearDirty organizer_id) = snd (clear_dirty_flags c now organizer_id)"

definition run_calls :: "cache \<Rightarrow> (int \<times> cache_call) list \<Rightarrow> cache" where
  "run_calls c calls = foldl perform c calls"

definition stored_flag :: "cache \<Rightarrow> int \<Rightarrow> string \<Rightarrow> bool option" where
  "stored_flag c now organizer_id =
     (case cache_get c now (dirty_key organizer_id) of
        Some (DirtyData d) \<Rightarrow> Some (requires_full_invalidation d)
      | _ \<Rightarrow> None)"

text \<open>
  \<open>last_mark\<close> is the time of the latest \<open>mark_cache_dirty\<close> for the organizer,
  starting from \<open>t\<close>; \<open>within_timeout\<close> says that every call runs less than 3600
  seconds after the latest such mark before it.
\<close>

fun marks :: "string \<Rightarrow> cache_call \<Rightarrow> bool" where
  "marks organizer_id (MarkDirty organizer_id' _ _ _) = (organizer_id' = organizer_id)"
| "marks organizer_id (ClearDirty _) = False"

fun last_mark :: "string \<Rightarrow> int \<Rightarrow> (int \<times> cache_call) list \<Rightarrow> int" where
  "last_mark organizer_id t [] = t"
| "last_mark organizer_id t ((now, call) # calls) =
     last_mark organizer_id (if marks organizer_id call then now else t) calls"

fun within_timeout :: "string \<Rightarrow> int \<Rightarrow> (int \<times> cache_call) list \<Rightarrow> bool" where
  "within_timeout organizer_id t [] = True"
| "within_timeout organizer_id t ((now, call) # calls) =
     (now < t + 3600 \<and>
      within_timeout organizer_id (if marks organizer_id call then now else t) calls)"

definition flagged :: "cache \<Rightarrow> string \<Rightarrow> int \<Rightarrow> bool" where
  "flagged c organizer_id t =
     (\<exists>d. c (dirty_key organizer_id) = Some (DirtyData d, t + 3600) \<and>
          requires_full_invalidation d)"

section \<open>Ordering of the produced slots\<close>

text \<open>
  Predicates for the ordering guarantee. A date is orderly when the resolver builds its
  intervals either from at most one date override that carries times, or from the
  recurring rules, and none of the sources it uses runs past midnight. \<open>chained\<close>
  intervals follow one another without touching; \<open>bounded_by\<close> keeps them inside a
  range; \<open>starts_increase\<close> is strict chronological order of slot starts; \<open>day_ok\<close>
  says that a day returned, in order and inside the day, or raised.
\<close>

definition usable_overrides ::
  "database \<Rightarrow> user \<Rightarrow> event_type \<Rightarrow> date \<Rightarrow> date_override_rule list" where
  "usable_overrides db organizer et d =
     filter (\<lambda>ov. dor_is_available ov \<and> dor_start_time ov \<noteq> None \<and> dor_end_time ov \<noteq> None)
       (applicable_overrides db organizer et d)"

definition override_within_day :: "date_override_rule \<Rightarrow> bool" where
  "override_within_day ov =
     (case (dor_start_time ov, dor_end_time ov) of
        (Some s, Some e) \<Rightarrow> s < e \<and> e < 1440
      | _ \<Rightarrow> True)"

definition orderly_day :: "database \<Rightarrow> user \<Rightarrow> event_type \<Rightarrow> date \<Rightarrow> bool" where
  "orderly_day db organizer et d =
     (if applicable_overrides db organizer et d \<noteq> []
      then length (usable_overrides db organizer et d) \<le> 1 \<and>
           list_all override_within_day (usable_overrides db organizer et d)
      else list_all (\<lambda>r. ar_start_time r < ar_end_time r \<and> ar_end_time r < 1440)
             (applicable_rules db organizer et d))"

definition bounded_by :: "int \<Rightarrow> int \<Rightarrow> (datetime \<times> datetime) list \<Rightarrow> bool" where
  "bounded_by lo hi xs = (\<forall>(a, b) \<in> set xs. lo \<le> a \<and> a \<le> b \<and> b \<le> hi)"

definition chained :: "(datetime \<times> datetime) list \<Rightarrow> bool" where
  "chained xs = sorted_wrt (\<lambda>i j. snd i < fst j) xs"

definition starts_increase :: "slot list \<Rightarrow> bool" where
  "starts_increase ss = sorted_wrt (<) (map start_time ss)"

definition day_ok :: "date \<Rightarrow> slot list outcome \<Rightarrow> bool" where
  "day_ok d res =
     (case res of
        Returns ss \<Rightarrow>
          starts_increase ss \<and>
          (\<forall>s \<in> set ss. d * 1440 \<le> start_time s \<and> start_time s < (d + 1) * 1440)
      | Raises e \<Rightarrow> True
      | Diverges \<Rightarrow> False)"

section \<open>Example data\<close>

text \<open>
  The scenarios of the specification, in UTC: organizer 1, a 30-minute event type 1 on
  a 30-minute stride, and Monday 2025-01-06, whose ordinal is 739257. Tokyo is nine
  hours ahead all year.
\<close>

definition tokyo_zone :: zone where
  "tokyo_zone = \<lparr>utcoffset = (\<lambda>_. 540), fromutc = (\<lambda>t. t + 540), dst = (\<lambda>_. 0)\<rparr>"

definition ex_zones :: tzdb where
  "ex_zones name =
     (if name = ''UTC'' then Some utc_zone
      else if name = ''Asia/Tokyo'' then Some tokyo_zone else None)"

definition ex_organizer :: user where
  "ex_organizer =
     \<lparr>user_id = 1,
      user_profile = \<lparr>timezone_name = ''UTC'', reasonable_hours_start = 9,
                      reasonable_hours_end = 18\<rparr>\<rparr>"

definition ex_event :: event_type where
  "ex_event =
     \<lparr>et_id = 1, duration = 30, buffer_time_before = None, buffer_time_after = None,
      slot_interval_minutes = Some 30, is_group_event = True, max_attendees = 3\<rparr>"

definition ex_day :: date where
  "ex_day = 739257"

definition ex_slot_at :: "date \<Rightarrow> tod \<Rightarrow> slot" where
  "ex_slot_at d t =
     \<lparr>start_time = combine d t, end_time = combine d t + 30, duration_minutes = 30,
      invitee_times = None, fairness_score = None, local_start_time = None,
      local_end_time = None, is_dst = None\<rparr>"

definition ex_slot :: slot where
  "ex_slot = ex_slot_at ex_day 540"

definition ex_booking :: "nat \<Rightarrow> int \<Rightarrow> booking" where
  "ex_booking etid n =
     \<lparr>bk_organizer = 1, bk_event_type_id = etid, bk_start_time = combine ex_day 540,
      bk_end_time = combine ex_day 570, bk_status = ''confirmed'', bk_attendee_count = n\<rparr>"


definition ex_rule :: "int \<Rightarrow> tod \<Rightarrow> tod \<Rightarrow> availability_rule" where
  "ex_rule dow s e =
     \<lparr>ar_organizer = 1, ar_day_of_week = dow, ar_start_time = s, ar_end_time = e,
      ar_event_types = [], ar_is_active = True\<rparr>"

definition ex_override :: "bool \<Rightarrow> tod option \<Rightarrow> tod option \<Rightarrow> date_override_rule" where
  "ex_override avail s e =
     \<lparr>dor_organizer = 1, dor_date = ex_day, dor_is_available = avail, dor_start_time = s,
      dor_end_time = e, dor_event_types = [], dor_is_active = True\<rparr>"

definition ex_db ::
  "availability_rule list \<Rightarrow> date_override_rule list \<Rightarrow> booking list \<Rightarrow> database" where
  "ex_db rules overrides bks =
     \<lparr>availability_rules = rules, date_override_rules = overrides,
      recurring_blocked_times = [], blocked_times = [], bookings = bks,
      buffer_times = Map.empty\<rparr>"

text \<open>
  New York around the start of daylight saving time on Sunday 2025-03-09 (ordinal 739319):
  a wall-clock time before 03:00 of that day has the standard offset of five hours
  behind UTC, also inside the skipped hour from 02:00, as for a datetime with
  \<open>fold=0\<close>; from 03:00 on the offset is four hours. The change is at 07:00 UTC.
\<close>

definition ny_zone :: zone where
  "ny_zone =
     \<lparr>utcoffset = (\<lambda>w. if w < combine 739319 180 then - 300 else - 240),
      fromutc = (\<lambda>u. if u < combine 739319 420 then u - 300 else u - 240),
      dst = (\<lambda>w. if w < combine 739319 180 then 0 else 60)\<rparr>"

definition ex_zones_ny :: tzdb where
  "ex_zones_ny name =
     (if name = ''America/New_York'' then Some ny_zone
      else if name = ''UTC'' then Some utc_zone else None)"

definition ex_organizer_ny :: user where
  "ex_organizer_ny =
     \<lparr>user_id = 1,
      user_profile = \<lparr>timezone_name = ''America/New_York'', reasonable_hours_start = 9,
                      reasonable_hours_end = 18\<rparr>\<rparr>"

definition ex_defaults :: buffer_time where
  "ex_defaults =
     \<lparr>default_buffer_before = 0, default_buffer_after = 0, minimum_gap = 0,
      bt_slot_interval_minutes = 15\<rparr>"

section \<open>Verified properties\<close>

subsection \<open>Time-of-day overlap\<close>

lemma split_on_not_empty: "split_on sep s \<noteq> []"
  by (induction s) (auto split: list.splits)

text \<open>
  C3, as stated: a malformed endpoint makes the overlap check return false. On the code
  this fails: \<open>abc\<close> is not a time, yet the check answers true, because
  \<open>_time_to_minutes\<close> turns what it cannot parse into minute 0.
\<close>

theorem malformed_endpoint_counterexample:
  "\<not> well_formed_hms ''abc'' \<and>
   are_time_intervals_overlapping ''abc'' ''10:00:00'' ''09:00:00'' ''11:00:00'' False"
  by code_simp

text \<open>
  C3, amended: the overlap check returns false whenever one of the four endpoint strings
  is empty. A non-empty malformed endpoint is not rejected: on four non-empty strings
  the check returns the overlap comparison of the minute values that
  \<open>_time_to_minutes\<close> gives them, and \<open>_time_to_minutes\<close> gives 0 (midnight) to a
  string whose hour or minute field is missing or is not an integer.
\<close>

theorem overlap_false_only_on_empty_endpoint:
  "(start1 = [] \<or> end1 = [] \<or> start2 = [] \<or> end2 = [] \<longrightarrow>
      \<not> are_time_intervals_overlapping start1 end1 start2 end2 allow_adjacency) \<and>
   (start1 \<noteq> [] \<and> end1 \<noteq> [] \<and> start2 \<noteq> [] \<and> end2 \<noteq> [] \<longrightarrow>
      are_time_intervals_overlapping start1 end1 start2 end2 allow_adjacency =
        (let a = time_to_minutes start1;
             b = time_to_minutes end1;
             c = time_to_minutes start2;
             d = time_to_minutes end2;
             b = (if b < a then b + 1440 else b);
             d = (if d < c then d + 1440 else d)
         in if allow_adjacency then a \<le> d \<and> b \<ge> c else a < d \<and> b > c)) \<and>
   ((\<forall>h m rest. split_on CHR '':'' s = h # m # rest \<longrightarrow>
        py_int h = None \<or> py_int m = None) \<longrightarrow>
      time_to_minutes s = 0)"
proof -
  have "time_to_minutes s = 0"
    if "\<forall>h m rest. split_on CHR '':'' s = h # m # rest \<longrightarrow> py_int h = None \<or> py_int m = None"
  proof (cases "split_on CHR '':'' s")
    case Nil
    then show ?thesis using split_on_not_empty by blast
  next
    case (Cons h t)
    with that show ?thesis
      by (cases t) (auto simp: time_to_minutes_def split: option.splits)
  qed
  then show ?thesis
    by (simp add: are_time_intervals_overlapping_def Let_def)
qed

theorem overlap_false_only_on_empty_endpoint_witness:
  "\<not> are_time_intervals_overlapping [] ''10:00:00'' ''09:00:00'' ''11:00:00'' False \<and>
   time_to_minutes ''abc'' = 0 \<and> time_to_minutes ''12:xx:00'' = 0 \<and>
   are_time_intervals_overlapping ''abc'' ''10:00:00'' ''09:00:00'' ''11:00:00'' False \<and>
   \<not> are_time_intervals_overlapping ''12:xx:00'' ''10:00:00'' ''11:00:00'' ''12:00:00'' True"
proof -
  have h: "split_on CHR '':'' ''abc'' = [''abc'']"
    "split_on CHR '':'' ''12:xx:00'' = [''12'', ''xx'', ''00'']" "py_int ''xx'' = None"
    by code_simp+
  have m: "time_to_minutes ''10:00:00'' = 600" "time_to_minutes ''09:00:00'' = 540"
    "time_to_minutes ''11:00:00'' = 660" "time_to_minutes ''12:00:00'' = 720"
    by code_simp+
  note t = overlap_false_only_on_empty_endpoint
  have z: "time_to_minutes ''abc'' = 0" "time_to_minutes ''12:xx:00'' = 0"
    using t [of "[]" "[]" "[]" "[]" False "''abc''"]
      t [of "[]" "[]" "[]" "[]" False "''12:xx:00''"]
    by (simp_all add: h)
  show ?thesis
    using t [of "[]" "''10:00:00''" "''09:00:00''" "''11:00:00''" False "[]"]
      t [of "''abc''" "''10:00:00''" "''09:00:00''" "''11:00:00''" False "[]"]
      t [of "''12:xx:00''" "''10:00:00''" "''11:00:00''" "''12:00:00''" True "[]"]
    by (simp add: z m)
qed

text \<open>
  C6, as stated: an interval whose end is at or before its start gets 1440 minutes added
  to its end, so that equal endpoints span a full day. On the code this fails at
  equality: 10:00 to 10:00 would, as a full day, overlap 12:00 to 13:00, and the code
  says it does not.
\<close>

theorem equal_endpoints_counterexample:
  "time_to_minutes ''10:00:00'' \<le> time_to_minutes ''10:00:00'' \<and>
   spec_intervals_overlap ''10:00:00'' ''10:00:00'' ''12:00:00'' ''13:00:00'' False \<and>
   \<not> are_time_intervals_overlapping ''10:00:00'' ''10:00:00'' ''12:00:00'' ''13:00:00'' False"
  by code_simp

text \<open>
  C6, amended: an interval whose end minutes are strictly less than its start minutes is
  normalised as midnight-spanning by adding 1440 minutes to its end before the
  comparison; an interval whose end minutes equal its start minutes is left as it is, a
  single point, which overlaps exactly the intervals that contain that point (in their
  interior when adjacency does not count).
\<close>

theorem midnight_normalisation_strict:
  assumes "start1 \<noteq> []" "end1 \<noteq> []" "start2 \<noteq> []" "end2 \<noteq> []"
  shows "(time_to_minutes end1 < time_to_minutes start1 \<longrightarrow>
           are_time_intervals_overlapping start1 end1 start2 end2 allow_adjacency =
             (let end2_minutes =
                    (if time_to_minutes end2 < time_to_minutes start2
                     then time_to_minutes end2 + 1440 else time_to_minutes end2)
              in if allow_adjacency
                 then time_to_minutes start1 \<le> end2_minutes \<and>
                      time_to_minutes end1 + 1440 \<ge> time_to_minutes start2
                 else time_to_minutes start1 < end2_minutes \<and>
                      time_to_minutes end1 + 1440 > time_to_minutes start2)) \<and>
         (time_to_minutes end1 = time_to_minutes start1 \<longrightarrow>
           are_time_intervals_overlapping start1 end1 start2 end2 allow_adjacency =
             (let end2_minutes =
                    (if time_to_minutes end2 < time_to_minutes start2
                     then time_to_minutes end2 + 1440 else time_to_minutes end2)
              in if allow_adjacency
                 then time_to_minutes start1 \<le> end2_minutes \<and>
                      time_to_minutes start1 \<ge> time_to_minutes start2
                 else time_to_minutes start1 < end2_minutes \<and>
                      time_to_minutes start1 > time_to_minutes start2))"
  using assms by (simp add: are_time_intervals_overlapping_def Let_def)

theorem midnight_normalisation_strict_witness:
  "are_time_intervals_overlapping ''22:00:00'' ''02:00:00'' ''23:30:00'' ''00:30:00'' False \<and>
   \<not> are_time_intervals_overlapping ''10:00:00'' ''10:00:00'' ''12:00:00'' ''13:00:00'' False"
proof -
  have m: "time_to_minutes ''22:00:00'' = 1320" "time_to_minutes ''02:00:00'' = 120"
    "time_to_minutes ''23:30:00'' = 1410" "time_to_minutes ''00:30:00'' = 30"
    "time_to_minutes ''10:00:00'' = 600" "time_to_minutes ''12:00:00'' = 720"
    "time_to_minutes ''13:00:00'' = 780"
    by code_simp+
  show ?thesis
    using midnight_normalisation_strict
        [of "''22:00:00''" "''02:00:00''" "''23:30:00''" "''00:30:00''" False]
      midnight_normalisation_strict
        [of "''10:00:00''" "''10:00:00''" "''12:00:00''" "''13:00:00''" False]
    by (simp add: m)
qed

lemmas ex_defs = ex_zones_def ex_organizer_def ex_event_def ex_day_def ex_slot_def
  ex_slot_at_def ex_booking_def ex_rule_def ex_override_def ex_db_def ex_defaults_def
  utc_zone_def tokyo_zone_def combine_def minutes_def days_def to_instant_def weekday_def

subsection \<open>Block filter\<close>

lemma recurring_loop_iff:
  "recurring_loop slot d blocks =
     (\<exists>r \<in> set blocks. applies_to_date r d \<and>
        combine d (rbt_start_time r) < end_time slot \<and>
        combine d (rbt_end_time r) +
          (if spans_midnight (rbt_start_time r) (rbt_end_time r) then days 1 else 0)
          > start_time slot)"
  by (induction blocks) (auto simp: Let_def)

text \<open>
  C1, as stated: \<open>is_slot_blocked\<close> returns true whenever an applicable active date
  override closes the date or does not contain the slot. On the code this fails: with
  one applicable override that closes 2025-01-06, the override check of the module
  blocks the 09:00 slot and \<open>is_slot_blocked\<close> does not.
\<close>

theorem override_not_in_block_filter_counterexample:
  "applicable_overrides (ex_db [] [ex_override False None None] []) ex_organizer ex_event
       ex_day = [ex_override False None None] \<and>
   \<not> dor_is_available (ex_override False None None) \<and>
   is_slot_blocked_by_override (ex_db [] [ex_override False None None] []) ex_organizer
     ex_event ex_slot ex_day \<and>
   \<not> is_slot_blocked (ex_db [] [ex_override False None None] []) utc_zone ex_organizer
       ex_slot ex_day"
  by (simp add: applicable_overrides_def is_slot_blocked_by_override_def
      applies_to_event_type_def is_slot_blocked_def is_slot_blocked_by_one_time_def
      is_slot_blocked_by_recurring_def ex_defs)

text \<open>
  C1, amended: \<open>is_slot_blocked(organizer, slot, date)\<close> returns true exactly when an
  active one-time block of the organizer overlaps the slot, or an active recurring block
  of the organizer for that weekday applies to the date and overlaps the slot. Date
  overrides are not among its disjuncts: its result is the same for every content of the
  override table.
\<close>

theorem is_slot_blocked_ignores_overrides:
  "(is_slot_blocked db tz organizer slot d =
     ((\<exists>b \<in> set (blocked_times db).
         bt_organizer b = user_id organizer \<and> bt_is_active b \<and>
         bt_start_datetime b < to_instant tz (end_time slot) \<and>
         bt_end_datetime b > to_instant tz (start_time slot)) \<or>
      (\<exists>r \<in> set (recurring_blocked_times db).
         rbt_organizer r = user_id organizer \<and> rbt_day_of_week r = weekday d \<and>
         rbt_is_active r \<and> applies_to_date r d \<and>
         combine d (rbt_start_time r) < end_time slot \<and>
         combine d (rbt_end_time r) +
           (if spans_midnight (rbt_start_time r) (rbt_end_time r) then days 1 else 0)
           > start_time slot))) \<and>
   is_slot_blocked (db\<lparr>date_override_rules := ovs\<rparr>) tz organizer slot d =
     is_slot_blocked db tz organizer slot d"
  by (auto simp: is_slot_blocked_def is_slot_blocked_by_one_time_def
      is_slot_blocked_by_recurring_def recurring_loop_iff Let_def filter_empty_conv)

theorem is_slot_blocked_ignores_overrides_witness:
  "is_slot_blocked
     ((ex_db [] [] [])\<lparr>blocked_times :=
        [\<lparr>bt_organizer = 1, bt_start_datetime = combine ex_day 550,
          bt_end_datetime = combine ex_day 600, bt_is_active = True\<rparr>]\<rparr>)
     utc_zone ex_organizer ex_slot ex_day \<and>
   is_slot_blocked
     ((ex_db [] [] [])\<lparr>blocked_times :=
        [\<lparr>bt_organizer = 1, bt_start_datetime = combine ex_day 550,
          bt_end_datetime = combine ex_day 600, bt_is_active = True\<rparr>],
        date_override_rules := [ex_override False None None]\<rparr>)
     utc_zone ex_organizer ex_slot ex_day"
  using is_slot_blocked_ignores_overrides
    [of "(ex_db [] [] [])\<lparr>blocked_times :=
        [\<lparr>bt_organizer = 1, bt_start_datetime = combine ex_day 550,
          bt_end_datetime = combine ex_day 600, bt_is_active = True\<rparr>]\<rparr>"
      utc_zone ex_organizer ex_slot ex_day "[ex_override False None None]"]
  by (simp add: ex_defs)

subsection \<open>Rule resolver\<close>

text \<open>
  C2: if at least one applicable active date override exists for the date, the daily
  intervals depend on the overrides alone: whatever the table of availability rules is
  replaced by, the resolver returns the same.
\<close>

theorem override_precedence:
  assumes "applicable_overrides db organizer et d \<noteq> []"
  shows "get_daily_available_intervals (db\<lparr>availability_rules := rules\<rparr>) zones organizer
           et d organizer_timezone =
         get_daily_available_intervals db zones organizer et d organizer_timezone"
  using assms by (simp add: get_daily_available_intervals_def applicable_overrides_def)

theorem override_precedence_witness:
  "applicable_overrides
       (ex_db [ex_rule 0 540 660] [ex_override True (Some 780) (Some 840)] [])
       ex_organizer ex_event ex_day \<noteq> [] \<and>
   get_daily_available_intervals
       (ex_db [] [ex_override True (Some 780) (Some 840)] [])
       ex_zones ex_organizer ex_event ex_day ''UTC'' =
     Inr [(combine ex_day 780, combine ex_day 840)] \<and>
   get_daily_available_intervals
       (ex_db [ex_rule 0 540 660] [ex_override True (Some 780) (Some 840)] [])
       ex_zones ex_organizer ex_event ex_day ''UTC'' =
     Inr [(combine ex_day 780, combine ex_day 840)]"
proof -
  have ov: "applicable_overrides
       (ex_db [ex_rule 0 540 660] [ex_override True (Some 780) (Some 840)] [])
       ex_organizer ex_event ex_day \<noteq> []"
    by (simp add: applicable_overrides_def applies_to_event_type_def ex_defs)
  have v: "get_daily_available_intervals
       (ex_db [ex_rule 0 540 660] [ex_override True (Some 780) (Some 840)] [])
       ex_zones ex_organizer ex_event ex_day ''UTC'' =
     Inr [(combine ex_day 780, combine ex_day 840)]"
    by (simp add: get_daily_available_intervals_def applicable_overrides_def
        applies_to_event_type_def spans_midnight_def ex_defs)
  from override_precedence [OF ov, of "[]" ex_zones "''UTC''"] ov v
  show ?thesis by (simp add: ex_db_def)
qed

subsection \<open>Booking conflict filter\<close>

lemma booking_loop_mono_max:
  "m \<le> m' \<Longrightarrow>
   booking_loop (et\<lparr>max_attendees := m'\<rparr>) ac gap ps pe tot bs \<Longrightarrow>
   booking_loop (et\<lparr>max_attendees := m\<rparr>) ac gap ps pe tot bs"
  by (induction bs) (auto simp: Let_def split: if_splits)

lemma booking_loop_mono_count:
  "ac \<le> ac' \<Longrightarrow>
   booking_loop et ac gap ps pe tot bs \<Longrightarrow>
   booking_loop et ac' gap ps pe tot bs"
  by (induction bs) (auto simp: Let_def split: if_splits)

lemma total_confirmed_attendees_max [simp]:
  "total_confirmed_attendees db organizer (et\<lparr>max_attendees := m\<rparr>) s e =
   total_confirmed_attendees db organizer et s e"
  by (simp add: total_confirmed_attendees_def overlapping_bookings_def)


lemmas conflict_defs = is_slot_conflicting_with_bookings_def existing_bookings_def
  total_confirmed_attendees_def overlapping_bookings_def




text \<open>
  C9: the booking conflict filter is monotone in group capacity. With everything else
  fixed, a slot that conflicts under a larger \<open>max_attendees\<close> conflicts under a smaller
  one (raising \<open>max_attendees\<close> never makes a free slot conflict), and a slot that
  conflicts for a requested \<open>attendee_count\<close> conflicts for every larger one.
\<close>

theorem conflict_monotone_in_capacity:
  "(m \<le> m' \<longrightarrow>
      is_slot_conflicting_with_bookings db tz organizer (et\<lparr>max_attendees := m'\<rparr>) slot ac
        bb ba gap \<longrightarrow>
      is_slot_conflicting_with_bookings db tz organizer (et\<lparr>max_attendees := m\<rparr>) slot ac
        bb ba gap) \<and>
   (ac \<le> ac' \<longrightarrow>
      is_slot_conflicting_with_bookings db tz organizer et slot ac bb ba gap \<longrightarrow>
      is_slot_conflicting_with_bookings db tz organizer et slot ac' bb ba gap)"
  by (auto simp: is_slot_conflicting_with_bookings_def Let_def
      intro: booking_loop_mono_max booking_loop_mono_count)

theorem conflict_monotone_in_capacity_witness:
  "(2::int) \<le> 3 \<and>
   is_slot_conflicting_with_bookings (ex_db [] [] [ex_booking 1 2]) utc_zone ex_organizer
     (ex_event\<lparr>max_attendees := 3\<rparr>) ex_slot 2 0 0 0 \<and>
   is_slot_conflicting_with_bookings (ex_db [] [] [ex_booking 1 2]) utc_zone ex_organizer
     (ex_event\<lparr>max_attendees := 2\<rparr>) ex_slot 2 0 0 0 \<and>
   is_slot_conflicting_with_bookings (ex_db [] [] [ex_booking 1 2]) utc_zone ex_organizer
     ex_event ex_slot 2 0 0 0 \<and>
   is_slot_conflicting_with_bookings (ex_db [] [] [ex_booking 1 2]) utc_zone ex_organizer
     ex_event ex_slot 3 0 0 0"
proof -
  have p: "is_slot_conflicting_with_bookings (ex_db [] [] [ex_booking 1 2]) utc_zone
     ex_organizer (ex_event\<lparr>max_attendees := 3\<rparr>) ex_slot 2 0 0 0"
    by (simp add: conflict_defs ex_defs)
  have q: "is_slot_conflicting_with_bookings (ex_db [] [] [ex_booking 1 2]) utc_zone
     ex_organizer ex_event ex_slot 2 0 0 0"
    by (simp add: conflict_defs ex_defs)
  from conflict_monotone_in_capacity
    [of 2 3 "ex_db [] [] [ex_booking 1 2]" utc_zone ex_organizer ex_event ex_slot 2 0 0 0 3]
    p q
  show ?thesis by simp
qed

subsection \<open>Orchestrator\<close>

lemma day_loop_empty:
  "end_date < start_date \<Longrightarrow> day_loop daily start_date end_date = Returns []"
  by (simp add: day_loop.simps)

text \<open>
  C10: called with \<open>start_date\<close> strictly after \<open>end_date\<close>, \<open>calculate_available_slots\<close>
  returns normally, with no slots, with \<open>date_range_days\<close> equal to
  \<open>(end_date - start_date).days + 1\<close>, which is at most 0, and with no warning beyond
  those about time zones: the engine does not check the order of the two dates.
\<close>

theorem inverted_range_gives_empty_result:
  assumes "end_date < start_date"
  shows "\<exists>res db'.
      calculate_available_slots db zones defaults elapsed organizer et start_date end_date
        invitee_timezone attendee_count invitee_timezones = Returns (res, db') \<and>
      slots res = [] \<and>
      date_range_days (metrics res) = Some (end_date - start_date + 1) \<and>
      end_date - start_date + 1 \<le> 0 \<and>
      warnings res =
        (if \<not> validate_timezone zones invitee_timezone
         then [''Invalid invitee timezone: '' @ invitee_timezone] else []) @
        (case invitee_timezones of
           None \<Rightarrow> []
         | Some tzs \<Rightarrow>
             map (\<lambda>tz. ''Invalid timezone in list: '' @ tz)
               (filter (\<lambda>tz. \<not> validate_timezone zones tz) tzs)) @
        (if \<not> validate_timezone zones (timezone_name (user_profile organizer))
         then [''Invalid organizer timezone, using UTC''] else [])"
  using assms
  by (simp add: calculate_available_slots_def collect_all_slots_def day_loop_empty Let_def
      calculate_multi_invitee_intersection_def enhance_slots_with_dst_info_def
      split: prod.splits option.splits)

theorem inverted_range_gives_empty_result_witness:
  "ex_day < ex_day + 1 \<and>
   (\<exists>res db'.
      calculate_available_slots (ex_db [ex_rule 0 540 660] [] []) ex_zones ex_defaults 0
        ex_organizer ex_event (ex_day + 1) ex_day ''UTC'' 1 None = Returns (res, db') \<and>
      slots res = [] \<and>
      date_range_days (metrics res) = Some 0 \<and>
      warnings res = [])"
  using inverted_range_gives_empty_result
    [of ex_day "ex_day + 1" "ex_db [ex_rule 0 540 660] [] []" ex_zones ex_defaults 0
      ex_organizer ex_event "''UTC''" 1 None]
  by (simp add: validate_timezone_def ex_zones_def ex_organizer_def)

subsection \<open>Cache key\<close>


lemma digit_val_digit_char: "n < 10 \<Longrightarrow> digit_val (digit_char n) = n"
  by (simp add: digit_val_def digit_char_def)

lemma is_digit_digit_char: "n < 10 \<Longrightarrow> is_digit (digit_char n)"
  by (simp add: is_digit_def digit_char_def)

lemma dec_value_snoc: "dec_value (s @ [c]) = 10 * dec_value s + digit_val c"
  by (simp add: dec_value_def)

lemma dec_value_str_nat: "dec_value (str_nat n) = n"
proof (induction n rule: str_nat.induct)
  case (1 n)
  show ?case
  proof (cases "n < 10")
    case True
    then show ?thesis
      by (subst str_nat.simps) (simp add: dec_value_def digit_val_digit_char)
  next
    case False
    with 1 show ?thesis
      by (subst str_nat.simps) (simp add: dec_value_snoc digit_val_digit_char)
  qed
qed

lemma digits_str_nat: "c \<in> set (str_nat n) \<Longrightarrow> is_digit c"
proof (induction n rule: str_nat.induct)
  case (1 n)
  show ?case
  proof (cases "n < 10")
    case True
    with 1(2) show ?thesis
      by (subst (asm) str_nat.simps) (simp add: is_digit_digit_char)
  next
    case False
    with 1 show ?thesis
      by (subst (asm) (2) str_nat.simps) (auto simp: is_digit_digit_char)
  qed
qed

lemma str_nat_not_empty: "str_nat n \<noteq> []"
  by (subst str_nat.simps) simp

lemma dec_value_zeros: "foldl (\<lambda>a c. 10 * a + digit_val c) 0 (replicate k CHR ''0'') = 0"
  by (induction k) (simp_all add: digit_val_def)

lemma dec_value_zfill: "dec_value (zfill w s) = dec_value s"
  by (simp add: dec_value_def zfill_def dec_value_zeros)

lemma zfill_str_nat_inj: "zfill w (str_nat a) = zfill w (str_nat b) \<Longrightarrow> a = b"
  by (metis dec_value_zfill dec_value_str_nat)

lemma is_digit_zero: "is_digit CHR ''0''"
  by (simp add: is_digit_def)

lemma digits_zfill: "c \<in> set (zfill w (str_nat n)) \<Longrightarrow> is_digit c"
  by (auto simp: zfill_def digits_str_nat is_digit_zero)

lemma split_at_separator:
  "c \<notin> set a \<Longrightarrow> c \<notin> set a' \<Longrightarrow> a @ c # b = a' @ c # b' \<Longrightarrow> a = a' \<and> b = b'"
proof (induction a arbitrary: a')
  case Nil
  then show ?case by (cases a') auto
next
  case (Cons x a)
  then show ?case by (cases a') auto
qed

lemma dash_not_digit: "\<not> is_digit CHR ''-''" and colon_not_digit: "\<not> is_digit CHR '':''"
  by (simp_all add: is_digit_def)

lemma isoformat_inj: "isoformat d1 = isoformat d2 \<Longrightarrow> d1 = d2"
proof -
  assume eq: "isoformat d1 = isoformat d2"
  have nd: "\<And>w n. CHR ''-'' \<notin> set (zfill w (str_nat n))"
    using digits_zfill dash_not_digit by blast
  from eq have e1: "zfill 4 (str_nat (year d1)) @ CHR ''-'' # (zfill 2 (str_nat (month d1)) @ CHR ''-'' # zfill 2 (str_nat (day d1)))
      = zfill 4 (str_nat (year d2)) @ CHR ''-'' # (zfill 2 (str_nat (month d2)) @ CHR ''-'' # zfill 2 (str_nat (day d2)))"
    by (simp add: isoformat_def)
  from split_at_separator [OF nd nd e1]
  have y: "zfill 4 (str_nat (year d1)) = zfill 4 (str_nat (year d2))"
    and e2: "zfill 2 (str_nat (month d1)) @ CHR ''-'' # zfill 2 (str_nat (day d1))
      = zfill 2 (str_nat (month d2)) @ CHR ''-'' # zfill 2 (str_nat (day d2))"
    by simp_all
  from split_at_separator [OF nd nd e2]
  have m: "zfill 2 (str_nat (month d1)) = zfill 2 (str_nat (month d2))"
    and d: "zfill 2 (str_nat (day d1)) = zfill 2 (str_nat (day d2))"
    by simp_all
  from y m d have "year d1 = year d2" "month d1 = month d2" "day d1 = day d2"
    by (auto dest: zfill_str_nat_inj)
  then show "d1 = d2" by simp
qed

lemma colon_free_isoformat: "CHR '':'' \<notin> set (isoformat d)"
proof -
  have "\<And>w n. CHR '':'' \<notin> set (zfill w (str_nat n))"
    using digits_zfill colon_not_digit by blast
  then show ?thesis by (simp add: isoformat_def)
qed

lemma colon_free_str_int: "CHR '':'' \<notin> set (str_int i)"
  using digits_str_nat colon_not_digit by (auto simp: str_int_def)

lemma str_nat_inj: "str_nat a = str_nat b \<Longrightarrow> a = b"
  by (metis dec_value_str_nat)

lemma str_nat_no_dash: "str_nat n \<noteq> CHR ''-'' # s" "CHR ''-'' # s \<noteq> str_nat n"
proof -
  show "str_nat n \<noteq> CHR ''-'' # s"
  proof
    assume "str_nat n = CHR ''-'' # s"
    then have "CHR ''-'' \<in> set (str_nat n)" by simp
    then show False using digits_str_nat dash_not_digit by blast
  qed
  then show "CHR ''-'' # s \<noteq> str_nat n" by (rule not_sym)
qed

lemma str_int_inj: "str_int a = str_int b \<Longrightarrow> a = b"
proof -
  assume eq: "str_int a = str_int b"
  show "a = b"
  proof (cases "a < 0"; cases "b < 0")
    assume "a < 0" "b < 0"
    with eq have "nat (- a) = nat (- b)" by (auto simp: str_int_def dest: str_nat_inj)
    with \<open>a < 0\<close> \<open>b < 0\<close> show ?thesis by simp
  next
    assume "a < 0" "\<not> b < 0"
    with eq show ?thesis using str_nat_no_dash by (simp add: str_int_def)
  next
    assume "\<not> a < 0" "b < 0"
    with eq show ?thesis using str_nat_no_dash by (simp add: str_int_def)
  next
    assume "\<not> a < 0" "\<not> b < 0"
    with eq have "nat a = nat b" by (auto simp: str_int_def dest: str_nat_inj)
    with \<open>\<not> a < 0\<close> \<open>\<not> b < 0\<close> show ?thesis by simp
  qed
qed

lemma split_at_last_separator:
  assumes "c \<notin> set b" "c \<notin> set b'" "a @ c # b = a' @ c # b'"
  shows "a = a' \<and> b = b'"
proof -
  from assms(3) have "rev (a @ c # b) = rev (a' @ c # b')" by simp
  then have "rev b @ c # rev a = rev b' @ c # rev a'" by simp
  from split_at_separator [OF _ _ this] assms(1,2) show ?thesis by simp
qed

text \<open>
  C7, amended: the cache key is a function of its six inputs (equal tuples give the same
  key), and two tuples whose \<open>organizer_id\<close> and \<open>event_type_id\<close> contain no colon
  give the same key only if they agree in every field.
\<close>

theorem cache_key_injective_for_colon_free_ids:
  assumes "CHR '':'' \<notin> set o1" "CHR '':'' \<notin> set e1"
    and "CHR '':'' \<notin> set o2" "CHR '':'' \<notin> set e2"
  shows "(get_cache_key_for_availability o1 e1 s1 n1 z1 a1 =
          get_cache_key_for_availability o2 e2 s2 n2 z2 a2) =
         (o1 = o2 \<and> e1 = e2 \<and> s1 = s2 \<and> n1 = n2 \<and> z1 = z2 \<and> a1 = a2)"
proof
  assume eq: "get_cache_key_for_availability o1 e1 s1 n1 z1 a1 =
          get_cache_key_for_availability o2 e2 s2 n2 z2 a2"
  then have k1: "o1 @ CHR '':'' # (e1 @ CHR '':'' # (isoformat s1 @ CHR '':'' #
        (isoformat n1 @ CHR '':'' # (z1 @ CHR '':'' # str_int a1)))) =
      o2 @ CHR '':'' # (e2 @ CHR '':'' # (isoformat s2 @ CHR '':'' #
        (isoformat n2 @ CHR '':'' # (z2 @ CHR '':'' # str_int a2))))"
    by (simp add: get_cache_key_for_availability_def)
  from split_at_separator [OF assms(1) assms(3) k1]
  have o: "o1 = o2" and k2: "e1 @ CHR '':'' # (isoformat s1 @ CHR '':'' #
        (isoformat n1 @ CHR '':'' # (z1 @ CHR '':'' # str_int a1))) =
      e2 @ CHR '':'' # (isoformat s2 @ CHR '':'' #
        (isoformat n2 @ CHR '':'' # (z2 @ CHR '':'' # str_int a2)))"
    by simp_all
  from split_at_separator [OF assms(2) assms(4) k2]
  have e: "e1 = e2" and k3: "isoformat s1 @ CHR '':'' #
        (isoformat n1 @ CHR '':'' # (z1 @ CHR '':'' # str_int a1)) =
      isoformat s2 @ CHR '':'' #
        (isoformat n2 @ CHR '':'' # (z2 @ CHR '':'' # str_int a2))"
    by simp_all
  from split_at_separator [OF colon_free_isoformat colon_free_isoformat k3]
  have s: "isoformat s1 = isoformat s2"
    and k4: "isoformat n1 @ CHR '':'' # (z1 @ CHR '':'' # str_int a1) =
      isoformat n2 @ CHR '':'' # (z2 @ CHR '':'' # str_int a2)"
    by simp_all
  from split_at_separator [OF colon_free_isoformat colon_free_isoformat k4]
  have n: "isoformat n1 = isoformat n2"
    and k5: "z1 @ CHR '':'' # str_int a1 = z2 @ CHR '':'' # str_int a2"
    by simp_all
  from split_at_last_separator [OF colon_free_str_int colon_free_str_int k5]
  have z: "z1 = z2" and a: "str_int a1 = str_int a2" by simp_all
  from o e s n z a
  show "o1 = o2 \<and> e1 = e2 \<and> s1 = s2 \<and> n1 = n2 \<and> z1 = z2 \<and> a1 = a2"
    by (auto dest: isoformat_inj str_int_inj)
next
  assume "o1 = o2 \<and> e1 = e2 \<and> s1 = s2 \<and> n1 = n2 \<and> z1 = z2 \<and> a1 = a2"
  then show "get_cache_key_for_availability o1 e1 s1 n1 z1 a1 =
          get_cache_key_for_availability o2 e2 s2 n2 z2 a2" by simp
qed


text \<open>
  C7, as stated: tuples that differ in a field give different keys. On the code this
  fails for identifiers that contain the separator: the pairs \<open>(a:b, c)\<close> and
  \<open>(a, b:c)\<close> of organizer and event type give one key.
\<close>

theorem colon_in_id_counterexample:
  "(''a:b'', ''c'') \<noteq> (''a'', ''b:c'') \<and>
   get_cache_key_for_availability ''a:b'' ''c'' ex_date ex_date ''UTC'' 1 =
   get_cache_key_for_availability ''a'' ''b:c'' ex_date ex_date ''UTC'' 1"
  by (simp add: get_cache_key_for_availability_def)

theorem cache_key_injective_for_colon_free_ids_witness:
  "CHR '':'' \<notin> set ''7'' \<and> CHR '':'' \<notin> set ''42'' \<and>
   get_cache_key_for_availability ''7'' ''42'' ex_date ex_date ''UTC'' 1 =
     ''availability:7:42:2025-01-06:2025-01-06:UTC:1'' \<and>
   get_cache_key_for_availability ''7'' ''42'' ex_date ex_date ''UTC'' 1 \<noteq>
   get_cache_key_for_availability ''7'' ''42'' ex_date ex_date ''UTC'' 2"
proof -
  have k: "get_cache_key_for_availability ''7'' ''42'' ex_date ex_date ''UTC'' 1 =
     ''availability:7:42:2025-01-06:2025-01-06:UTC:1''"
    by code_simp
  from cache_key_injective_for_colon_free_ids
    [of "''7''" "''42''" "''7''" "''42''" ex_date ex_date "''UTC''" 1 ex_date ex_date "''UTC''" 2] k
  show ?thesis by simp
qed

subsection \<open>Dirty-set protocol\<close>

lemma dirty_key_inj [simp]: "(dirty_key a = dirty_key b) = (a = b)"
  by (simp add: dirty_key_def)

lemma dirty_key_not_list [simp]: "dirty_key a \<noteq> dirty_list_key" "dirty_list_key \<noteq> dirty_key a"
  by (simp_all add: dirty_key_def dirty_list_key_def)

lemma update_dirty_list_other:
  "snd (update_dirty_list c now f) (dirty_key k) = c (dirty_key k)"
  by (simp add: update_dirty_list_def cache_set_def
      split: option.splits cache_value.splits)

lemma mark_flagged_initial:
  assumes "fst (mark_cache_dirty c t organizer_id cache_type True kwargs) = None"
  shows "flagged (snd (mark_cache_dirty c t organizer_id cache_type True kwargs)) organizer_id t"
  using assms
  by (auto simp: mark_cache_dirty_def flagged_def update_dirty_list_other cache_set_def
      Let_def split: option.splits cache_value.splits)

lemma perform_flagged:
  assumes "flagged c organizer_id t" "now < t + 3600" "call \<noteq> ClearDirty organizer_id"
  shows "flagged (perform c (now, call)) organizer_id
           (if marks organizer_id call then now else t)"
proof (cases call)
  case (MarkDirty o' ct full kw)
  show ?thesis
  proof (cases "o' = organizer_id")
    case True
    with assms MarkDirty show ?thesis
      by (auto simp: mark_cache_dirty_def flagged_def update_dirty_list_other cache_set_def
          cache_get_def Let_def split: option.splits cache_value.splits)
  next
    case False
    with assms MarkDirty show ?thesis
      by (auto simp: mark_cache_dirty_def flagged_def update_dirty_list_other cache_set_def
          Let_def split: option.splits cache_value.splits)
  qed
next
  case (ClearDirty o')
  with assms show ?thesis
    by (auto simp: clear_dirty_flags_def flagged_def update_dirty_list_other cache_delete_def
        Let_def)
qed

lemma run_calls_flagged:
  assumes "flagged c organizer_id t"
    and "\<forall>call \<in> set calls. snd call \<noteq> ClearDirty organizer_id"
    and "within_timeout organizer_id t calls"
  shows "flagged (run_calls c calls) organizer_id (last_mark organizer_id t calls)"
  using assms
proof (induction calls arbitrary: c t)
  case Nil
  then show ?case by (simp add: run_calls_def)
next
  case (Cons a calls)
  obtain now call where a: "a = (now, call)" by (cases a)
  from Cons.prems a have "flagged (perform c (now, call)) organizer_id
           (if marks organizer_id call then now else t)"
    by (intro perform_flagged) auto
  from Cons.IH [OF this] Cons.prems a show ?case
    by (simp add: run_calls_def)
qed

text \<open>
  C8, as stated: the flag stays true after every later \<open>mark_cache_dirty\<close> and is
  unset by \<open>clear_dirty_flags\<close> only. On the code this fails once the entry's timeout
  of 3600 seconds has ended: a mark without the flag, one hour after the mark with it,
  starts from the default entry and stores false.
\<close>

theorem flag_lost_after_timeout_counterexample:
  "fst (mark_cache_dirty Map.empty 0 ''u'' ''rule'' True []) = None \<and>
   stored_flag
     (run_calls (snd (mark_cache_dirty Map.empty 0 ''u'' ''rule'' True []))
        [(3600, MarkDirty ''u'' ''rule'' False [])])
     3600 ''u'' = Some False"
  by (simp add: mark_cache_dirty_def update_dirty_list_def cache_get_def cache_set_def
      run_calls_def stored_flag_def)

lemma clear_dirty_flags_removes:
  "snd (clear_dirty_flags c now organizer_id) (dirty_key organizer_id) = None"
  by (simp add: clear_dirty_flags_def update_dirty_list_other cache_delete_def)

text \<open>
  C8, amended: once \<open>mark_cache_dirty\<close> with \<open>requires_full_invalidation=true\<close> has
  run for an organizer, the stored flag of that organizer is true after every later
  sequence of \<open>mark_cache_dirty\<close> calls (any arguments, any organizer) and
  \<open>clear_dirty_flags\<close> calls for other organizers, as long as each call, and the
  reading of the flag, comes less than one hour after the latest mark for that
  organizer. The entry ends in two ways: read an hour or more after the latest mark it
  has timed out and no flag is stored, and after \<open>clear_dirty_flags\<close> for that
  organizer, in any state of the cache, no flag is stored.
\<close>

theorem full_invalidation_flag_sticky_until_timeout:
  "(fst (mark_cache_dirty c t0 organizer_id cache_type True kwargs) = None \<and>
    (\<forall>call \<in> set calls. snd call \<noteq> ClearDirty organizer_id) \<and>
    within_timeout organizer_id t0 calls \<longrightarrow>
      (t < last_mark organizer_id t0 calls + 3600 \<longrightarrow>
         stored_flag
           (run_calls (snd (mark_cache_dirty c t0 organizer_id cache_type True kwargs)) calls)
           t organizer_id = Some True) \<and>
      (last_mark organizer_id t0 calls + 3600 \<le> t \<longrightarrow>
         stored_flag
           (run_calls (snd (mark_cache_dirty c t0 organizer_id cache_type True kwargs)) calls)
           t organizer_id = None)) \<and>
   stored_flag (snd (clear_dirty_flags c' now organizer_id)) t' organizer_id = None"
proof -
  have sticky:
    "(t < last_mark organizer_id t0 calls + 3600 \<longrightarrow>
         stored_flag
           (run_calls (snd (mark_cache_dirty c t0 organizer_id cache_type True kwargs)) calls)
           t organizer_id = Some True) \<and>
      (last_mark organizer_id t0 calls + 3600 \<le> t \<longrightarrow>
         stored_flag
           (run_calls (snd (mark_cache_dirty c t0 organizer_id cache_type True kwargs)) calls)
           t organizer_id = None)"
    if a: "fst (mark_cache_dirty c t0 organizer_id cache_type True kwargs) = None"
      and b: "\<forall>call \<in> set calls. snd call \<noteq> ClearDirty organizer_id"
      and w: "within_timeout organizer_id t0 calls"
    using run_calls_flagged [OF mark_flagged_initial [OF a] b w]
    by (auto simp: flagged_def stored_flag_def cache_get_def)
  have cleared:
    "stored_flag (snd (clear_dirty_flags c' now organizer_id)) t' organizer_id = None"
    by (simp add: stored_flag_def cache_get_def clear_dirty_flags_removes)
  from sticky cleared show ?thesis by blast
qed

theorem full_invalidation_flag_sticky_until_timeout_witness:
  "fst (mark_cache_dirty Map.empty 0 ''u'' ''rule'' True []) = None \<and>
   within_timeout ''u'' 0
     [(100, MarkDirty ''u'' ''block'' False []), (200, MarkDirty ''v'' ''rule'' True []),
      (3000, ClearDirty ''v'')] \<and>
   stored_flag
     (run_calls (snd (mark_cache_dirty Map.empty 0 ''u'' ''rule'' True []))
        [(100, MarkDirty ''u'' ''block'' False []), (200, MarkDirty ''v'' ''rule'' True []),
         (3000, ClearDirty ''v'')])
     3699 ''u'' = Some True \<and>
   stored_flag
     (run_calls (snd (mark_cache_dirty Map.empty 0 ''u'' ''rule'' True []))
        [(100, MarkDirty ''u'' ''block'' False []), (200, MarkDirty ''v'' ''rule'' True []),
         (3000, ClearDirty ''v'')])
     3700 ''u'' = None \<and>
   stored_flag
     (snd (clear_dirty_flags (snd (mark_cache_dirty Map.empty 0 ''u'' ''rule'' True [])) 50
        ''u''))
     60 ''u'' = None"
proof -
  have a: "fst (mark_cache_dirty Map.empty 0 ''u'' ''rule'' True []) = None"
    by (simp add: mark_cache_dirty_def update_dirty_list_def cache_get_def cache_set_def)
  note t = full_invalidation_flag_sticky_until_timeout
    [of Map.empty 0 "''u''" "''rule''" "[]"
      "[(100, MarkDirty ''u'' ''block'' False []), (200, MarkDirty ''v'' ''rule'' True []),
        (3000, ClearDirty ''v'')]" _
      "snd (mark_cache_dirty Map.empty 0 ''u'' ''rule'' True [])" 50 60]
  from t [of 3699] t [of 3700] a show ?thesis by simp
qed

subsection \<open>Ordering of the produced slots\<close>

lemma merge_step_inv:
  assumes "merged \<noteq> []" "chained merged" "bounded_by lo hi merged"
    and "lo \<le> cs" "cs \<le> ce" "ce \<le> hi"
  shows "merge_step merged (cs, ce) \<noteq> [] \<and> chained (merge_step merged (cs, ce)) \<and>
         bounded_by lo hi (merge_step merged (cs, ce))"
proof -
  obtain ms ls le where m: "merged = ms @ [(ls, le)]"
    using assms(1) by (metis append_butlast_last_id surj_pair)
  from assms(2,3) m have ch: "sorted_wrt (\<lambda>i j. snd i < fst j) ms"
    and before: "\<forall>e \<in> set ms. snd e < ls" and l: "lo \<le> ls" "ls \<le> le" "le \<le> hi"
    and w: "\<forall>(a, b) \<in> set ms. lo \<le> a \<and> a \<le> b \<and> b \<le> hi"
    by (auto simp: chained_def bounded_by_def sorted_wrt_append)
  show ?thesis
  proof (cases "cs \<le> le")
    case True
    then have "merge_step merged (cs, ce) = ms @ [(ls, max le ce)]"
      by (simp add: merge_step_def m)
    with ch before l w assms(4-6) show ?thesis
      by (auto simp: chained_def bounded_by_def sorted_wrt_append)
  next
    case False
    then have "merge_step merged (cs, ce) = ms @ [(ls, le), (cs, ce)]"
      by (simp add: merge_step_def m)
    with ch before l w assms(4-6) False show ?thesis
      by (fastforce simp: chained_def bounded_by_def sorted_wrt_append)
  qed
qed

lemma foldl_merge_step_inv:
  assumes "merged \<noteq> []" "chained merged" "bounded_by lo hi merged" "bounded_by lo hi xs"
  shows "chained (foldl merge_step merged xs) \<and> bounded_by lo hi (foldl merge_step merged xs)"
  using assms
proof (induction xs arbitrary: merged)
  case Nil
  then show ?case by simp
next
  case (Cons x xs)
  obtain cs ce where x: "x = (cs, ce)" by (cases x)
  from Cons.prems(4) x have b: "lo \<le> cs" "cs \<le> ce" "ce \<le> hi" and r: "bounded_by lo hi xs"
    by (auto simp: bounded_by_def)
  from merge_step_inv [OF Cons.prems(1-3) b] Cons.IH [OF _ _ _ r] x
  show ?case by simp
qed

lemma merge_overlapping_intervals_chained:
  assumes "bounded_by lo hi xs"
  shows "chained (merge_overlapping_intervals xs) \<and>
         bounded_by lo hi (merge_overlapping_intervals xs)"
proof (cases "xs = []")
  case True
  then show ?thesis by (simp add: merge_overlapping_intervals_def chained_def bounded_by_def)
next
  case False
  let ?s = "sort_key fst xs"
  from False have ne: "?s \<noteq> []" by (metis length_0_conv length_sort)
  then obtain h t where s: "?s = h # t" by (cases ?s) auto
  have "set ?s = set xs" by simp
  with assms have ws: "bounded_by lo hi ?s" by (simp add: bounded_by_def)
  with s have h: "bounded_by lo hi [h]" and t: "bounded_by lo hi t" by (auto simp: bounded_by_def)
  have "chained [h]" by (simp add: chained_def)
  from foldl_merge_step_inv [OF _ this h t] False s show ?thesis
    by (simp add: merge_overlapping_intervals_def Let_def)
qed

lemma generate_slots_sorted:
  assumes "0 < step"
  shows "\<exists>ss. generate_slots_from_interval cur e dur step = Some ss \<and>
           starts_increase ss \<and>
           (\<forall>s \<in> set ss. cur \<le> start_time s \<and> start_time s + dur \<le> e)"
  using assms
proof (induction cur e dur step rule: generate_slots_from_interval.induct)
  case (1 cur e dur step)
  show ?case
  proof (cases "cur + minutes dur \<le> e")
    case False
    then show ?thesis
      by (subst generate_slots_from_interval.simps) (simp add: starts_increase_def)
  next
    case True
    with 1 obtain ss where ih:
      "generate_slots_from_interval (cur + minutes step) e dur step = Some ss"
      "starts_increase ss"
      "\<forall>s \<in> set ss. cur + minutes step \<le> start_time s \<and> start_time s + dur \<le> e"
      by force
    from True 1(2) ih show ?thesis
      by (subst generate_slots_from_interval.simps)
        (auto simp: starts_increase_def minutes_def)
  qed
qed

lemma potential_slots_sorted:
  assumes "0 < step" "0 \<le> dur" "chained xs" "bounded_by lo hi xs"
  shows "\<exists>ss. potential_slots xs dur step = Some ss \<and> starts_increase ss \<and>
           (\<forall>s \<in> set ss. \<exists>(a, b) \<in> set xs. a \<le> start_time s \<and> start_time s + dur \<le> b)"
  using assms(3,4)
proof (induction xs)
  case Nil
  then show ?case by (simp add: starts_increase_def)
next
  case (Cons x xs)
  obtain a b where x: "x = (a, b)" by (cases x)
  from Cons.prems have "chained xs" "bounded_by lo hi xs"
    by (auto simp: chained_def bounded_by_def)
  with Cons.IH obtain rest where rest:
    "potential_slots xs dur step = Some rest" "starts_increase rest"
    "\<forall>s \<in> set rest. \<exists>(a, b) \<in> set xs. a \<le> start_time s \<and> start_time s + dur \<le> b"
    by blast
  from generate_slots_sorted [OF assms(1), of a b dur] obtain first where first:
    "generate_slots_from_interval a b dur step = Some first" "starts_increase first"
    "\<forall>s \<in> set first. a \<le> start_time s \<and> start_time s + dur \<le> b"
    by blast
  from Cons.prems(1) x have later: "\<forall>j \<in> set xs. b < fst j"
    by (auto simp: chained_def)
  have cross: "\<forall>s \<in> set first. \<forall>s' \<in> set rest. start_time s < start_time s'"
  proof (intro ballI)
    fix s s' assume s: "s \<in> set first" and s': "s' \<in> set rest"
    from rest(3) s' obtain a' b' where j: "(a', b') \<in> set xs" "a' \<le> start_time s'"
      by auto
    from later j(1) have "b < a'" by auto
    with first(3) s j(2) assms(2) show "start_time s < start_time s'" by fastforce
  qed
  from first rest cross x show ?case
    by (auto simp: starts_increase_def sorted_wrt_append)
qed

lemma rule_intervals_bounded:
  assumes "list_all (\<lambda>r. ar_start_time r < ar_end_time r \<and> ar_end_time r < 1440) rules"
    and "rule_intervals zones tzname d rules = Inr xs"
  shows "bounded_by (d * 1440) (d * 1440 + 1439) xs"
  using assms
proof (induction rules arbitrary: xs)
  case Nil
  then show ?case by (simp add: bounded_by_def)
next
  case (Cons r rules)
  then show ?case
    by (auto simp: bounded_by_def combine_def spans_midnight_def Let_def
        split: option.splits sum.splits)
qed

lemma override_intervals_bounded:
  assumes "list_all override_within_day
             (filter (\<lambda>ov. dor_is_available ov \<and> dor_start_time ov \<noteq> None \<and>
                            dor_end_time ov \<noteq> None) ovs)"
    and "override_intervals zones tzname d ovs = Inr xs"
  shows "bounded_by (d * 1440) (d * 1440 + 1439) xs \<and>
         length xs \<le> length (filter (\<lambda>ov. dor_is_available ov \<and> dor_start_time ov \<noteq> None \<and>
                            dor_end_time ov \<noteq> None) ovs)"
  using assms
proof (induction ovs arbitrary: xs)
  case Nil
  then show ?case by (simp add: bounded_by_def)
next
  case (Cons ov ovs)
  show ?case
  proof (cases "dor_is_available ov \<and> dor_start_time ov \<noteq> None \<and> dor_end_time ov \<noteq> None")
    case True
    then obtain st en where t: "dor_is_available ov" "dor_start_time ov = Some st"
      "dor_end_time ov = Some en" by auto
    with Cons.prems(2) obtain rest where rest:
      "override_intervals zones tzname d ovs = Inr rest"
      "xs = (combine d st, combine d en +
              (if spans_midnight st en then days 1 else 0)) # rest"
      by (auto simp: Let_def split: option.splits sum.splits)
    from Cons.prems(1) t have tl: "list_all override_within_day
             (filter (\<lambda>ov. dor_is_available ov \<and> dor_start_time ov \<noteq> None \<and>
                            dor_end_time ov \<noteq> None) ovs)"
      and "override_within_day ov"
      by simp_all
    with t have w: "st < en" "en < 1440"
      by (simp_all add: override_within_day_def)
    from Cons.IH [OF tl rest(1)] rest(2) w t show ?thesis
      by (auto simp: bounded_by_def combine_def spans_midnight_def)
  next
    case False
    with Cons.prems(2) have "override_intervals zones tzname d ovs = Inr xs"
      by (auto split: option.splits bool.splits)
    with Cons.IH [of xs] Cons.prems(1) False show ?thesis
      by auto
  qed
qed

lemma chained_short: "length xs \<le> 1 \<Longrightarrow> chained xs"
  by (cases xs) (auto simp: chained_def)

lemma daily_intervals_orderly:
  assumes "orderly_day db organizer et d"
    and "get_daily_available_intervals db zones organizer et d tzname = Inr xs"
  shows "chained xs \<and> bounded_by (d * 1440) (d * 1440 + 1439) xs"
proof (cases "applicable_overrides db organizer et d \<noteq> []")
  case True
  with assms(2) have o: "override_intervals zones tzname d
      (applicable_overrides db organizer et d) = Inr xs"
    by (simp add: get_daily_available_intervals_def)
  from True assms(1) have
    "list_all override_within_day (usable_overrides db organizer et d)"
    "length (usable_overrides db organizer et d) \<le> 1"
    by (simp_all add: orderly_day_def)
  with override_intervals_bounded [OF _ o] show ?thesis
    by (auto simp: usable_overrides_def intro: chained_short)
next
  case False
  with assms(2) obtain ys where ys:
    "rule_intervals zones tzname d (applicable_rules db organizer et d) = Inr ys"
    "xs = merge_overlapping_intervals ys"
    by (auto simp: get_daily_available_intervals_def split: sum.splits)
  from False assms(1) have
    "list_all (\<lambda>r. ar_start_time r < ar_end_time r \<and> ar_end_time r < 1440)
       (applicable_rules db organizer et d)"
    by (simp add: orderly_day_def)
  from merge_overlapping_intervals_chained [OF rule_intervals_bounded [OF this ys(1)]] ys(2)
  show ?thesis by simp
qed

lemma calculate_daily_slots_ok:
  assumes "orderly_day db organizer et d" "0 \<le> duration et" "0 < step"
  shows "day_ok d (calculate_daily_slots db zones organizer et d tzname itz ac bb ba gap step)"
proof (cases "get_daily_available_intervals db zones organizer et d tzname")
  case (Inl e)
  then show ?thesis by (simp add: calculate_daily_slots_def day_ok_def)
next
  case (Inr xs)
  from daily_intervals_orderly [OF assms(1) Inr]
  have c: "chained xs" and b: "bounded_by (d * 1440) (d * 1440 + 1439) xs" by simp_all
  from potential_slots_sorted [OF assms(3) assms(2) c b] obtain ss where ss:
    "potential_slots xs (duration et) step = Some ss" "starts_increase ss"
    "\<forall>s \<in> set ss. \<exists>(a, b) \<in> set xs. a \<le> start_time s \<and> start_time s + duration et \<le> b"
    by blast
  have range: "\<forall>s \<in> set ss. d * 1440 \<le> start_time s \<and> start_time s < (d + 1) * 1440"
  proof
    fix s assume "s \<in> set ss"
    with ss(3) obtain a b' where "(a, b') \<in> set xs" "a \<le> start_time s"
      "start_time s + duration et \<le> b'" by auto
    with b assms(2) show "d * 1440 \<le> start_time s \<and> start_time s < (d + 1) * 1440"
      by (fastforce simp: bounded_by_def)
  qed
  from ss(2) have "\<And>P. starts_increase (filter P ss)"
    by (simp add: starts_increase_def sorted_wrt_map sorted_wrt_filter)
  with Inr ss(1) range show ?thesis
    by (auto simp: calculate_daily_slots_def day_ok_def starts_increase_def
        split: option.splits)
qed

lemma day_loop_ok:
  assumes "\<forall>d. current_date \<le> d \<and> d \<le> end_date \<longrightarrow> day_ok d (daily d)"
  shows "case day_loop daily current_date end_date of
           Returns ss \<Rightarrow>
             starts_increase ss \<and>
             (\<forall>s \<in> set ss. current_date * 1440 \<le> start_time s \<and>
                            start_time s < (end_date + 1) * 1440)
         | Raises e \<Rightarrow> True
         | Diverges \<Rightarrow> False"
  using assms
proof (induction daily current_date end_date rule: day_loop.induct)
  case (1 daily current_date end_date)
  show ?case
  proof (cases "current_date \<le> end_date")
    case False
    then show ?thesis
      by (subst day_loop.simps) (simp add: starts_increase_def)
  next
    case True
    with 1(2) have today: "day_ok current_date (daily current_date)" by simp
    show ?thesis
    proof (cases "daily current_date")
      case (Returns daily_slots)
      from 1(2) have "\<forall>d. current_date + 1 \<le> d \<and> d \<le> end_date \<longrightarrow> day_ok d (daily d)"
        by simp
      from 1(1) [OF True Returns this] today Returns True show ?thesis
        by (subst day_loop.simps)
          (fastforce simp: day_ok_def starts_increase_def sorted_wrt_append
            split: outcome.splits)
    next
      case (Raises e)
      with True show ?thesis by (subst day_loop.simps) simp
    next
      case Diverges
      with today show ?thesis by (simp add: day_ok_def)
    qed
  qed
qed

lemma insort_key_lex:
  assumes "sorted_wrt (\<lambda>a b. f a < f b \<or> (f a = f b \<and> R a b)) ys"
    and "\<forall>y \<in> set ys. R x y"
  shows "sorted_wrt (\<lambda>a b. f a < f b \<or> (f a = f b \<and> R a b)) (insort_key f x ys)"
  using assms
proof (induction ys)
  case Nil
  then show ?case by simp
next
  case (Cons y ys)
  show ?case
  proof (cases "f x \<le> f y")
    case True
    with Cons.prems show ?thesis by (fastforce simp: le_less)
  next
    case False
    with Cons show ?thesis by (auto simp: set_insort_key)
  qed
qed

lemma sort_key_lex:
  fixes f :: "'a \<Rightarrow> 'b::linorder"
  assumes "sorted_wrt R xs"
  shows "sorted_wrt (\<lambda>a b. f a < f b \<or> (f a = f b \<and> R a b)) (sort_key f xs)"
  using assms
proof (induction xs)
  case Nil
  then show ?case by simp
next
  case (Cons x xs)
  then show ?case by (auto intro: insort_key_lex)
qed

lemma collect_all_slots_ok:
  assumes "\<forall>d. start_date \<le> d \<and> d \<le> end_date \<longrightarrow> orderly_day db organizer et d"
    and "0 \<le> duration et"
    and "0 < py_or (slot_interval_minutes et) (bt_slot_interval_minutes buffer_settings)"
  shows "case collect_all_slots db zones buffer_settings organizer et start_date end_date
                tzname itz ac of
           Returns ss \<Rightarrow>
             starts_increase ss \<and>
             (\<forall>s \<in> set ss. start_date * 1440 \<le> start_time s \<and>
                            start_time s < (end_date + 1) * 1440)
         | Raises e \<Rightarrow> True
         | Diverges \<Rightarrow> False"
proof -
  let ?daily = "\<lambda>d. calculate_daily_slots db zones organizer et d tzname itz ac
      (py_or (buffer_time_before et) (default_buffer_before buffer_settings))
      (py_or (buffer_time_after et) (default_buffer_after buffer_settings))
      (minimum_gap buffer_settings)
      (py_or (slot_interval_minutes et) (bt_slot_interval_minutes buffer_settings))"
  from assms have "\<forall>d. start_date \<le> d \<and> d \<le> end_date \<longrightarrow> day_ok d (?daily d)"
    by (auto intro: calculate_daily_slots_ok)
  from day_loop_ok [OF this] show ?thesis
    by (auto simp: collect_all_slots_def Let_def split: outcome.splits)
qed

lemma orderly_day_buffer_times [simp]:
  "orderly_day (db\<lparr>buffer_times := b\<rparr>) organizer et d = orderly_day db organizer et d"
  by (simp add: orderly_day_def usable_overrides_def applicable_overrides_def
      applicable_rules_def)

lemma start_time_enhance_slot [simp]:
  "start_time (enhance_slot zones tz rs re tzs s) = start_time s"
  by (simp add: enhance_slot_def split: prod.splits)

lemma instants_increase:
  assumes "starts_increase ss"
    and "\<forall>s \<in> set ss. lo \<le> start_time s \<and> start_time s < hi"
    and "\<forall>a b. lo \<le> a \<and> a < b \<and> b < hi \<longrightarrow> to_instant tz a < to_instant tz b"
  shows "sorted_wrt (\<lambda>a b. to_instant tz (start_time a) < to_instant tz (start_time b)) ss"
proof -
  from assms(1) have "sorted_wrt (\<lambda>a b. start_time a < start_time b) ss"
    by (simp add: starts_increase_def sorted_wrt_map)
  then show ?thesis
    by (rule sorted_wrt_mono_rel [rotated]) (use assms(2,3) in auto)
qed

lemma multi_invitee_sorted:
  fixes g :: "datetime \<Rightarrow> int"
  assumes "sorted_wrt (\<lambda>a b. g (start_time a) < g (start_time b)) ss"
  shows "sorted_wrt (\<lambda>a b. fairness_key b < fairness_key a \<or>
              (fairness_key a = fairness_key b \<and> g (start_time a) < g (start_time b)))
           (calculate_multi_invitee_intersection zones tz ss tzs organizer)"
proof -
  let ?xs = "map (enhance_slot zones tz (reasonable_hours_start (user_profile organizer))
      (reasonable_hours_end (user_profile organizer)) tzs) ss"
  from assms have "sorted_wrt (\<lambda>a b. g (start_time a) < g (start_time b)) ?xs"
    by (simp add: sorted_wrt_map)
  from sort_key_lex [OF this, of "\<lambda>x. - fairness_key x"] show ?thesis
    by (simp add: calculate_multi_invitee_intersection_def Let_def)
qed

lemma dst_info_keeps_order:
  assumes "\<And>a b. R a b = Q (fairness_score a) (start_time a) (fairness_score b) (start_time b)"
  shows "sorted_wrt R (enhance_slots_with_dst_info zones tz ss itz) = sorted_wrt R ss"
proof (cases "zones itz")
  case None
  then show ?thesis by (simp add: enhance_slots_with_dst_info_def)
next
  case (Some z)
  have "sorted_wrt R (enhance_slots_with_dst_info zones tz ss itz) =
        sorted_wrt (\<lambda>x y. Q (fairness_score x) (start_time x) (fairness_score y) (start_time y)) ss"
    unfolding enhance_slots_with_dst_info_def Some
    by (simp add: sorted_wrt_map assms Let_def)
  also have "\<dots> = sorted_wrt R ss"
    using assms by presburger
  finally show ?thesis .
qed

text \<open>
  C5, amended: take a single \<open>calculate_available_slots\<close> call whose dates are all
  orderly (each resolved from recurring rules, or from at most one date override with
  times, none running past midnight), with a non-negative duration and a positive
  stride, and whose organizer zone turns later wall-clock times of the date range into
  later instants (the range crosses no skipped hour). Then the loop over the dates does
  not run forever, and the list of accepted slots it returns is in strictly increasing
  start-instant order before multi-invitee sorting; the call returns, and its list is
  ordered by fairness score descending with ties in increasing start-instant order when
  multi-invitee sorting applies, and in increasing start-instant order otherwise.
  Nothing is said of dates resolved through several date overrides with times.
\<close>

theorem slots_ordered_on_orderly_days:
  assumes "\<forall>d. start_date \<le> d \<and> d \<le> end_date \<longrightarrow> orderly_day db organizer et d"
    and "0 \<le> duration et"
    and "0 < py_or (slot_interval_minutes et)
               (bt_slot_interval_minutes (fst (get_or_create_buffer_time defaults db organizer)))"
    and "organizer_timezone =
           (if \<not> validate_timezone zones (timezone_name (user_profile organizer))
            then ''UTC'' else timezone_name (user_profile organizer))"
    and "tz = (case zones organizer_timezone of Some z \<Rightarrow> z | None \<Rightarrow> utc_zone)"
    and "\<forall>a b. start_date * 1440 \<le> a \<and> a < b \<and> b < (end_date + 1) * 1440 \<longrightarrow>
           to_instant tz a < to_instant tz b"
  shows "(case collect_all_slots (snd (get_or_create_buffer_time defaults db organizer)) zones
                 (fst (get_or_create_buffer_time defaults db organizer)) organizer et
                 start_date end_date organizer_timezone invitee_timezone attendee_count of
            Returns all_slots \<Rightarrow>
              sorted_wrt (<) (map (\<lambda>s. to_instant tz (start_time s)) all_slots)
          | Raises e \<Rightarrow> True
          | Diverges \<Rightarrow> False) \<and>
         (\<exists>res db'.
            calculate_available_slots db zones defaults elapsed organizer et start_date
              end_date invitee_timezone attendee_count invitee_timezones = Returns (res, db') \<and>
            (if (case invitee_timezones of
                   None \<Rightarrow> False
                 | Some tzs \<Rightarrow> 1 < length (filter (validate_timezone zones) tzs))
             then sorted_wrt (\<lambda>a b. fairness_key b < fairness_key a \<or>
                     (fairness_key a = fairness_key b \<and>
                      to_instant tz (start_time a) < to_instant tz (start_time b)))
                    (slots res)
             else sorted_wrt (\<lambda>a b. to_instant tz (start_time a) < to_instant tz (start_time b))
                    (slots res)))"
proof -
  obtain bs db1 where g: "get_or_create_buffer_time defaults db organizer = (bs, db1)"
    by (cases "get_or_create_buffer_time defaults db organizer")
  then have "db1 = db \<or> (\<exists>b. db1 = db\<lparr>buffer_times := b\<rparr>)"
    by (auto simp: get_or_create_buffer_time_def split: option.splits)
  with assms(1) have o: "\<forall>d. start_date \<le> d \<and> d \<le> end_date \<longrightarrow> orderly_day db1 organizer et d"
    by auto
  from assms(3) g have st: "0 < py_or (slot_interval_minutes et) (bt_slot_interval_minutes bs)"
    by simp
  note c = collect_all_slots_ok [OF o assms(2) st]
  let ?inst = "\<lambda>s. to_instant tz (start_time s)"
  have inst: "sorted_wrt (\<lambda>a b. ?inst a < ?inst b) ss"
    if "collect_all_slots db1 zones bs organizer et start_date end_date organizer_timezone
          itz attendee_count = Returns ss" for ss itz
    using c [of zones organizer_timezone itz attendee_count] that
    by (auto intro: instants_increase [OF _ _ assms(6)])
  have first: "case collect_all_slots db1 zones bs organizer et start_date end_date
                 organizer_timezone invitee_timezone attendee_count of
            Returns all_slots \<Rightarrow> sorted_wrt (<) (map ?inst all_slots)
          | Raises e \<Rightarrow> True
          | Diverges \<Rightarrow> False"
    using c [of zones organizer_timezone invitee_timezone attendee_count] inst
    by (auto simp: sorted_wrt_map split: outcome.splits)
  let ?itz = "if \<not> validate_timezone zones invitee_timezone then ''UTC'' else invitee_timezone"
  have second: "\<exists>res db'.
            calculate_available_slots db zones defaults elapsed organizer et start_date
              end_date invitee_timezone attendee_count invitee_timezones = Returns (res, db') \<and>
            (if (case invitee_timezones of
                   None \<Rightarrow> False
                 | Some tzs \<Rightarrow> 1 < length (filter (validate_timezone zones) tzs))
             then sorted_wrt (\<lambda>a b. fairness_key b < fairness_key a \<or>
                     (fairness_key a = fairness_key b \<and> ?inst a < ?inst b))
                    (slots res)
             else sorted_wrt (\<lambda>a b. ?inst a < ?inst b) (slots res))"
  proof (cases "collect_all_slots db1 zones bs organizer et start_date end_date
      organizer_timezone ?itz attendee_count")
    case Diverges
    with c [of zones organizer_timezone ?itz attendee_count] show ?thesis by simp
  next
    case (Raises e)
    with g assms(4) show ?thesis
      by (simp add: calculate_available_slots_def Let_def)
  next
    case (Returns all_slots)
    note inc = inst [OF Returns]
    have plain: "sorted_wrt (\<lambda>a b. ?inst a < ?inst b)
        (enhance_slots_with_dst_info zones tz all_slots ?itz)"
      using inc
      by (subst dst_info_keeps_order
          [where Q = "\<lambda>_ s _ s'. to_instant tz s < to_instant tz s'"]) simp_all
    have multi: "\<And>tzs. sorted_wrt (\<lambda>a b. fairness_key b < fairness_key a \<or>
                     (fairness_key a = fairness_key b \<and> ?inst a < ?inst b))
        (enhance_slots_with_dst_info zones tz
           (calculate_multi_invitee_intersection zones tz all_slots tzs organizer) ?itz)"
      using multi_invitee_sorted [of "to_instant tz", OF inc]
      by (subst dst_info_keeps_order
          [where Q = "\<lambda>f s f' s'.
             (case f' of Some x \<Rightarrow> x | None \<Rightarrow> 0) < (case f of Some x \<Rightarrow> x | None \<Rightarrow> 0) \<or>
             ((case f of Some x \<Rightarrow> x | None \<Rightarrow> 0) = (case f' of Some x \<Rightarrow> x | None \<Rightarrow> 0) \<and>
              to_instant tz s < to_instant tz s')"])
        (simp_all add: fairness_key_def)
    from Returns g plain multi assms(4,5) show ?thesis
      by (auto simp: calculate_available_slots_def Let_def split: option.splits)
  qed
  from first second g show ?thesis by simp
qed

lemma no_blocks_not_blocked:
  "blocked_times db = [] \<Longrightarrow> recurring_blocked_times db = [] \<Longrightarrow>
   \<not> is_slot_blocked db tz organizer slot d"
  by (simp add: is_slot_blocked_def is_slot_blocked_by_one_time_def
      is_slot_blocked_by_recurring_def)

lemma no_bookings_not_conflicting:
  "bookings db = [] \<Longrightarrow>
   \<not> is_slot_conflicting_with_bookings db tz organizer et slot ac bb ba gap"
  by (simp add: is_slot_conflicting_with_bookings_def existing_bookings_def Let_def)

lemma calculate_daily_slots_free:
  assumes "blocked_times db = []" "recurring_blocked_times db = []" "bookings db = []"
    and "get_daily_available_intervals db zones organizer et d tzname = Inr xs"
    and "xs \<noteq> []" "zones tzname = Some tz"
    and "potential_slots xs (duration et) step = Some ss"
  shows "calculate_daily_slots db zones organizer et d tzname itz ac bb ba gap step = Returns ss"
  using assms
  by (simp add: calculate_daily_slots_def no_blocks_not_blocked no_bookings_not_conflicting)

lemma day_loop_single:
  "daily d = Returns ss \<Longrightarrow> day_loop daily d d = Returns ss"
  by (subst day_loop.simps) (simp add: day_loop_empty)

lemma day_loop_pair:
  "daily d = Returns ss \<Longrightarrow> daily (d + 1) = Returns ss' \<Longrightarrow>
   day_loop daily d (d + 1) = Returns (ss @ ss')"
  by (subst day_loop.simps) (simp add: day_loop_single)

lemma calculate_available_slots_valid:
  assumes "validate_timezone zones itz"
    and "validate_timezone zones (timezone_name (user_profile organizer))"
    and "zones (timezone_name (user_profile organizer)) = Some tz"
    and "get_or_create_buffer_time defaults db organizer = (bs, db1)"
    and "collect_all_slots db1 zones bs organizer et sd ed
           (timezone_name (user_profile organizer)) itz ac = Returns all_slots"
  shows "\<exists>res. calculate_available_slots db zones defaults elapsed organizer et sd ed itz ac
           itzs = Returns (res, db1) \<and>
         slots res =
           enhance_slots_with_dst_info zones tz
             (case itzs of
                None \<Rightarrow> all_slots
              | Some tzs \<Rightarrow>
                  if 1 < length (filter (validate_timezone zones) tzs)
                  then calculate_multi_invitee_intersection zones tz all_slots
                         (filter (validate_timezone zones) tzs) organizer
                  else all_slots)
             itz"
  using assms
  by (simp add: calculate_available_slots_def Let_def split: option.splits)

lemma start_time_dst_info:
  "map start_time (enhance_slots_with_dst_info zones tz ss itz) = map start_time ss"
  by (simp add: enhance_slots_with_dst_info_def Let_def split: option.splits)

lemma fairness_key_dst_info:
  "map fairness_key (enhance_slots_with_dst_info zones tz ss itz) = map fairness_key ss"
  by (simp add: enhance_slots_with_dst_info_def fairness_key_def Let_def split: option.splits)

lemma ex_generate:
  "generate_slots_from_interval (combine ex_day t) (combine ex_day (t + 60)) 30 30 =
   Some [ex_slot_at ex_day t, ex_slot_at ex_day (t + 30)]"
  by (simp add: generate_slots_from_interval.simps ex_slot_at_def combine_def minutes_def)

lemma ex_override_intervals:
  "get_daily_available_intervals
     (ex_db [] [ex_override True (Some 780) (Some 840), ex_override True (Some 540) (Some 600)] [])
     ex_zones ex_organizer ex_event ex_day ''UTC'' =
   Inr [(combine ex_day 780, combine ex_day (780 + 60)),
        (combine ex_day 540, combine ex_day (540 + 60))]"
  by (simp add: get_daily_available_intervals_def applicable_overrides_def
      applies_to_event_type_def spans_midnight_def ex_defs)

lemma ex_override_daily:
  "calculate_daily_slots
     (ex_db [] [ex_override True (Some 780) (Some 840), ex_override True (Some 540) (Some 600)] [])
     ex_zones ex_organizer ex_event ex_day ''UTC'' itz ac bb ba gap 30 =
   Returns [ex_slot_at ex_day 780, ex_slot_at ex_day 810,
            ex_slot_at ex_day 540, ex_slot_at ex_day 570]"
proof -
  have p: "potential_slots
      [(combine ex_day 780, combine ex_day (780 + 60)),
       (combine ex_day 540, combine ex_day (540 + 60))] (duration ex_event) 30 =
     Some [ex_slot_at ex_day 780, ex_slot_at ex_day 810,
           ex_slot_at ex_day 540, ex_slot_at ex_day 570]"
    using ex_generate [of 780] ex_generate [of 540] by (simp add: ex_event_def)
  show ?thesis
    by (rule calculate_daily_slots_free [OF _ _ _ ex_override_intervals _ _ p])
      (simp_all add: ex_db_def ex_zones_def)
qed

text \<open>
  The override branch of the resolver returns its intervals in row order and does not
  pass them through \<open>merge_overlapping_intervals\<close>, which the rule branch does:
  overrides 13:00-14:00 and 09:00-10:00 on one date give the slots 13:00, 13:30, 09:00,
  09:30.
\<close>

lemma override_rows_kept_in_row_order:
  "collect_all_slots
       (ex_db [] [ex_override True (Some 780) (Some 840),
                  ex_override True (Some 540) (Some 600)] [])
       ex_zones ex_defaults ex_organizer ex_event ex_day ex_day ''UTC'' ''UTC'' 1 =
     Returns [ex_slot_at ex_day 780, ex_slot_at ex_day 810,
              ex_slot_at ex_day 540, ex_slot_at ex_day 570] \<and>
   \<not> sorted (map start_time [ex_slot_at ex_day 780, ex_slot_at ex_day 810,
              ex_slot_at ex_day 540, ex_slot_at ex_day 570])"
proof -
  have s: "py_or (slot_interval_minutes ex_event) (bt_slot_interval_minutes ex_defaults) = 30"
    by (simp add: py_or_def ex_event_def)
  show ?thesis
    by (simp add: collect_all_slots_def Let_def s day_loop_single ex_override_daily
        ex_slot_at_def combine_def)
qed

lemma ex_generate_two_hours:
  "generate_slots_from_interval (combine ex_day 480) (combine ex_day 600) 30 30 =
   Some [ex_slot_at ex_day 480, ex_slot_at ex_day 510, ex_slot_at ex_day 540,
         ex_slot_at ex_day 570]"
  by (simp add: generate_slots_from_interval.simps ex_slot_at_def combine_def minutes_def)

lemma ex_rule_intervals:
  "get_daily_available_intervals ((ex_db [ex_rule 0 480 600] [] [])\<lparr>buffer_times := b\<rparr>)
     ex_zones ex_organizer ex_event ex_day ''UTC'' =
   Inr [(combine ex_day 480, combine ex_day 600)]"
  by (simp add: get_daily_available_intervals_def applicable_overrides_def
      applicable_rules_def applies_to_event_type_def spans_midnight_def
      merge_overlapping_intervals_def ex_defs)

lemma ex_rule_daily:
  "calculate_daily_slots ((ex_db [ex_rule 0 480 600] [] [])\<lparr>buffer_times := b\<rparr>)
     ex_zones ex_organizer ex_event ex_day ''UTC'' itz ac bb ba gap 30 =
   Returns [ex_slot_at ex_day 480, ex_slot_at ex_day 510, ex_slot_at ex_day 540,
            ex_slot_at ex_day 570]"
proof -
  have p: "potential_slots [(combine ex_day 480, combine ex_day 600)] (duration ex_event) 30 =
     Some [ex_slot_at ex_day 480, ex_slot_at ex_day 510, ex_slot_at ex_day 540,
           ex_slot_at ex_day 570]"
    using ex_generate_two_hours by (simp add: ex_event_def)
  show ?thesis
    by (rule calculate_daily_slots_free [OF _ _ _ ex_rule_intervals _ _ p])
      (simp_all add: ex_db_def ex_zones_def)
qed

lemma ex_fairness:
  "fairness_key (enhance_slot ex_zones utc_zone 9 18 [''UTC'', ''Asia/Tokyo'']
     (ex_slot_at ex_day 480)) = 1 / 2"
  "fairness_key (enhance_slot ex_zones utc_zone 9 18 [''UTC'', ''Asia/Tokyo'']
     (ex_slot_at ex_day 510)) = 1 / 2"
  "fairness_key (enhance_slot ex_zones utc_zone 9 18 [''UTC'', ''Asia/Tokyo'']
     (ex_slot_at ex_day 540)) = 1"
  "fairness_key (enhance_slot ex_zones utc_zone 9 18 [''UTC'', ''Asia/Tokyo'']
     (ex_slot_at ex_day 570)) = 1"
  by (simp_all add: fairness_key_def enhance_slot_def astimezone_def hour_def ex_defs)

lemma ex_multi_invitee:
  "map (\<lambda>s. (fairness_key s, start_time s))
     (calculate_multi_invitee_intersection ex_zones utc_zone
        [ex_slot_at ex_day 480, ex_slot_at ex_day 510, ex_slot_at ex_day 540,
         ex_slot_at ex_day 570]
        [''UTC'', ''Asia/Tokyo''] ex_organizer) =
   [(1, combine ex_day 540), (1, combine ex_day 570),
    (1 / 2, combine ex_day 480), (1 / 2, combine ex_day 510)]"
proof -
  have r: "reasonable_hours_start (user_profile ex_organizer) = 9"
    "reasonable_hours_end (user_profile ex_organizer) = 18"
    by (simp_all add: ex_organizer_def)
  have st: "\<And>t. start_time (ex_slot_at ex_day t) = combine ex_day t"
    by (simp add: ex_slot_at_def)
  show ?thesis
    by (simp add: calculate_multi_invitee_intersection_def Let_def r ex_fairness st)
qed

theorem slots_ordered_on_orderly_days_witness:
  "orderly_day (ex_db [ex_rule 0 480 600] [] []) ex_organizer ex_event ex_day \<and>
   0 \<le> duration ex_event \<and>
   (\<exists>res db'.
      calculate_available_slots (ex_db [ex_rule 0 480 600] [] []) ex_zones ex_defaults 0
        ex_organizer ex_event ex_day ex_day ''UTC'' 1 (Some [''UTC'', ''Asia/Tokyo'']) =
        Returns (res, db') \<and>
      sorted_wrt (\<lambda>a b. fairness_key b < fairness_key a \<or>
                   (fairness_key a = fairness_key b \<and>
                    to_instant utc_zone (start_time a) < to_instant utc_zone (start_time b)))
        (slots res) \<and>
      map (\<lambda>s. (fairness_key s, to_instant utc_zone (start_time s))) (slots res) =
        [(1, combine ex_day 540), (1, combine ex_day 570),
         (1 / 2, combine ex_day 480), (1 / 2, combine ex_day 510)])"
proof -
  let ?db = "ex_db [ex_rule 0 480 600] [] []"
  have o: "orderly_day ?db ex_organizer ex_event ex_day"
    by (simp add: orderly_day_def applicable_overrides_def applicable_rules_def
        applies_to_event_type_def ex_defs)
  then have o': "\<forall>d. ex_day \<le> d \<and> d \<le> ex_day \<longrightarrow> orderly_day ?db ex_organizer ex_event d"
    by (metis order_antisym)
  have d: "0 \<le> duration ex_event" by (simp add: ex_event_def)
  have g: "get_or_create_buffer_time ex_defaults ?db ex_organizer =
      (ex_defaults, ?db\<lparr>buffer_times := (buffer_times ?db)(user_id ex_organizer \<mapsto> ex_defaults)\<rparr>)"
    by (simp add: get_or_create_buffer_time_def ex_db_def)
  have s: "py_or (slot_interval_minutes ex_event) (bt_slot_interval_minutes ex_defaults) = 30"
    by (simp add: py_or_def ex_event_def)
  have v: "validate_timezone ex_zones ''UTC''" "validate_timezone ex_zones ''Asia/Tokyo''"
    by (simp_all add: validate_timezone_def ex_zones_def)
  have tzn: "timezone_name (user_profile ex_organizer) = ''UTC''"
    by (simp add: ex_organizer_def)
  have z: "ex_zones ''UTC'' = Some utc_zone" by (simp add: ex_zones_def)
  have otz: "''UTC'' =
      (if \<not> validate_timezone ex_zones (timezone_name (user_profile ex_organizer))
       then ''UTC'' else timezone_name (user_profile ex_organizer))"
    by (simp add: tzn)
  have stz: "utc_zone = (case ex_zones ''UTC'' of Some z \<Rightarrow> z | None \<Rightarrow> utc_zone)"
    by (simp add: z)
  have mono: "\<forall>a b. ex_day * 1440 \<le> a \<and> a < b \<and> b < (ex_day + 1) * 1440 \<longrightarrow>
      to_instant utc_zone a < to_instant utc_zone b"
    by (simp add: to_instant_def utc_zone_def)
  have inst: "\<And>w. to_instant utc_zone w = w"
    by (simp add: to_instant_def utc_zone_def)
  have c: "collect_all_slots
      (?db\<lparr>buffer_times := (buffer_times ?db)(user_id ex_organizer \<mapsto> ex_defaults)\<rparr>)
      ex_zones ex_defaults ex_organizer ex_event ex_day ex_day
      (timezone_name (user_profile ex_organizer)) ''UTC'' 1 =
    Returns [ex_slot_at ex_day 480, ex_slot_at ex_day 510, ex_slot_at ex_day 540,
             ex_slot_at ex_day 570]"
    by (simp add: collect_all_slots_def Let_def s tzn day_loop_single ex_rule_daily)
  from calculate_available_slots_valid
    [OF v(1) _ _ g c, of utc_zone 0 "Some [''UTC'', ''Asia/Tokyo'']"] v tzn z
  obtain res0 where res0:
    "calculate_available_slots ?db ex_zones ex_defaults 0 ex_organizer ex_event ex_day ex_day
       ''UTC'' 1 (Some [''UTC'', ''Asia/Tokyo'']) =
     Returns (res0, ?db\<lparr>buffer_times := (buffer_times ?db)(user_id ex_organizer \<mapsto> ex_defaults)\<rparr>)"
    "slots res0 = enhance_slots_with_dst_info ex_zones utc_zone
       (calculate_multi_invitee_intersection ex_zones utc_zone
          [ex_slot_at ex_day 480, ex_slot_at ex_day 510, ex_slot_at ex_day 540,
           ex_slot_at ex_day 570] [''UTC'', ''Asia/Tokyo''] ex_organizer) ''UTC''"
    by auto
  have m: "map (\<lambda>s. (fairness_key s, to_instant utc_zone (start_time s))) (slots res0) =
        [(1, combine ex_day 540), (1, combine ex_day 570),
         (1 / 2, combine ex_day 480), (1 / 2, combine ex_day 510)]"
    using ex_multi_invitee
    by (simp add: res0(2) enhance_slots_with_dst_info_def z fairness_key_def Let_def
        comp_def inst)
  from slots_ordered_on_orderly_days
    [where defaults = ex_defaults and zones = ex_zones and invitee_timezone = "''UTC''"
       and attendee_count = 1 and elapsed = 0
       and invitee_timezones = "Some [''UTC'', ''Asia/Tokyo'']",
     OF o' d _ otz stz mono] g s v
  obtain res db' where r:
    "calculate_available_slots ?db ex_zones ex_defaults 0 ex_organizer ex_event ex_day ex_day
       ''UTC'' 1 (Some [''UTC'', ''Asia/Tokyo'']) = Returns (res, db')"
    "sorted_wrt (\<lambda>a b. fairness_key b < fairness_key a \<or>
                   (fairness_key a = fairness_key b \<and>
                    to_instant utc_zone (start_time a) < to_instant utc_zone (start_time b)))
        (slots res)"
    by auto
  from r(1) res0(1) have "res = res0" by simp
  with m have m': "map (\<lambda>s. (fairness_key s, to_instant utc_zone (start_time s))) (slots res) =
        [(1, combine ex_day 540), (1, combine ex_day 570),
         (1 / 2, combine ex_day 480), (1 / 2, combine ex_day 510)]"
    by simp
  show ?thesis
    apply (intro conjI)
      apply (rule o)
     apply (rule d)
    apply (rule exI [of _ res])
    apply (rule exI [of _ db'])
    apply (intro conjI)
      apply (rule r(1))
     apply (rule r(2))
    apply (rule m')
    done
qed

text \<open>
  The days are concatenated as they come, so a rule that runs past midnight also breaks
  the order across two dates: Monday 23:00-01:00 followed by Tuesday 00:00-01:00.
\<close>

lemma ex_midnight_intervals:
  "get_daily_available_intervals (ex_db [ex_rule 0 1380 60, ex_rule 1 0 60] [] [])
     ex_zones ex_organizer ex_event ex_day ''UTC'' =
   Inr [(combine ex_day 1380, combine ex_day 1500)]"
  "get_daily_available_intervals (ex_db [ex_rule 0 1380 60, ex_rule 1 0 60] [] [])
     ex_zones ex_organizer ex_event (ex_day + 1) ''UTC'' =
   Inr [(combine ex_day 1440, combine ex_day 1500)]"
  by (simp_all add: get_daily_available_intervals_def applicable_overrides_def
      applicable_rules_def applies_to_event_type_def spans_midnight_def
      merge_overlapping_intervals_def ex_defs)

lemma ex_midnight_generate:
  "generate_slots_from_interval (combine ex_day 1380) (combine ex_day 1500) 30 30 =
   Some [ex_slot_at ex_day 1380, ex_slot_at ex_day 1410, ex_slot_at ex_day 1440,
         ex_slot_at ex_day 1470]"
  "generate_slots_from_interval (combine ex_day 1440) (combine ex_day 1500) 30 30 =
   Some [ex_slot_at ex_day 1440, ex_slot_at ex_day 1470]"
  by (simp_all add: generate_slots_from_interval.simps ex_slot_at_def combine_def minutes_def)

lemma midnight_span_breaks_day_order:
  "collect_all_slots (ex_db [ex_rule 0 1380 60, ex_rule 1 0 60] [] [])
       ex_zones ex_defaults ex_organizer ex_event ex_day (ex_day + 1) ''UTC'' ''UTC'' 1 =
     Returns [ex_slot_at ex_day 1380, ex_slot_at ex_day 1410, ex_slot_at ex_day 1440,
              ex_slot_at ex_day 1470, ex_slot_at ex_day 1440, ex_slot_at ex_day 1470] \<and>
   \<not> sorted (map start_time
       [ex_slot_at ex_day 1380, ex_slot_at ex_day 1410, ex_slot_at ex_day 1440,
        ex_slot_at ex_day 1470, ex_slot_at ex_day 1440, ex_slot_at ex_day 1470])"
proof -
  let ?db = "ex_db [ex_rule 0 1380 60, ex_rule 1 0 60] [] []"
  have s: "py_or (slot_interval_minutes ex_event) (bt_slot_interval_minutes ex_defaults) = 30"
    by (simp add: py_or_def ex_event_def)
  have mon: "\<And>itz ac bb ba gap.
      calculate_daily_slots ?db ex_zones ex_organizer ex_event ex_day ''UTC'' itz ac bb ba gap 30 =
      Returns [ex_slot_at ex_day 1380, ex_slot_at ex_day 1410, ex_slot_at ex_day 1440,
               ex_slot_at ex_day 1470]"
    by (rule calculate_daily_slots_free [OF _ _ _ ex_midnight_intervals(1)])
      (simp_all add: ex_db_def ex_zones_def ex_midnight_generate ex_event_def)
  have tue: "\<And>itz ac bb ba gap.
      calculate_daily_slots ?db ex_zones ex_organizer ex_event (ex_day + 1) ''UTC'' itz ac bb ba
        gap 30 =
      Returns [ex_slot_at ex_day 1440, ex_slot_at ex_day 1470]"
    by (rule calculate_daily_slots_free [OF _ _ _ ex_midnight_intervals(2)])
      (simp_all add: ex_db_def ex_zones_def ex_midnight_generate ex_event_def)
  show ?thesis
    by (simp add: collect_all_slots_def Let_def s day_loop_pair mon tue ex_slot_at_def
        combine_def)
qed

lemma ex_dst_intervals:
  "get_daily_available_intervals (ex_db [ex_rule 6 60 240] [] [])
     ex_zones_ny ex_organizer_ny ex_event 739319 ''America/New_York'' =
   Inr [(combine 739319 60, combine 739319 240)]"
  by (simp add: get_daily_available_intervals_def applicable_overrides_def
      applicable_rules_def applies_to_event_type_def spans_midnight_def
      merge_overlapping_intervals_def ex_rule_def ex_db_def ex_organizer_ny_def
      ex_event_def ex_zones_ny_def combine_def days_def weekday_def)

lemma ex_dst_generate:
  "generate_slots_from_interval (combine 739319 60) (combine 739319 240) 30 30 =
   Some [ex_slot_at 739319 60, ex_slot_at 739319 90, ex_slot_at 739319 120,
         ex_slot_at 739319 150, ex_slot_at 739319 180, ex_slot_at 739319 210]"
  by (simp add: generate_slots_from_interval.simps ex_slot_at_def combine_def minutes_def)

lemma skipped_hour_breaks_instant_order:
  "collect_all_slots (ex_db [ex_rule 6 60 240] [] []) ex_zones_ny ex_defaults
       ex_organizer_ny ex_event 739319 739319 ''America/New_York'' ''UTC'' 1 =
     Returns [ex_slot_at 739319 60, ex_slot_at 739319 90, ex_slot_at 739319 120,
              ex_slot_at 739319 150, ex_slot_at 739319 180, ex_slot_at 739319 210] \<and>
   map (\<lambda>s. to_instant ny_zone (start_time s))
     [ex_slot_at 739319 60, ex_slot_at 739319 90, ex_slot_at 739319 120,
      ex_slot_at 739319 150, ex_slot_at 739319 180, ex_slot_at 739319 210] =
     [combine 739319 360, combine 739319 390, combine 739319 420, combine 739319 450,
      combine 739319 420, combine 739319 450]"
proof -
  let ?db = "ex_db [ex_rule 6 60 240] [] []"
  have s: "py_or (slot_interval_minutes ex_event) (bt_slot_interval_minutes ex_defaults) = 30"
    by (simp add: py_or_def ex_event_def)
  have day: "\<And>itz ac bb ba gap.
      calculate_daily_slots ?db ex_zones_ny ex_organizer_ny ex_event 739319
        ''America/New_York'' itz ac bb ba gap 30 =
      Returns [ex_slot_at 739319 60, ex_slot_at 739319 90, ex_slot_at 739319 120,
               ex_slot_at 739319 150, ex_slot_at 739319 180, ex_slot_at 739319 210]"
    by (rule calculate_daily_slots_free [OF _ _ _ ex_dst_intervals])
      (simp_all add: ex_db_def ex_zones_ny_def ex_dst_generate ex_event_def)
  show ?thesis
    by (simp add: collect_all_slots_def Let_def s day_loop_single day ex_slot_at_def
        combine_def to_instant_def ny_zone_def)
qed

text \<open>
  C5, as stated: within one call the accepted slots are in non-decreasing start-instant
  order before multi-invitee sorting, for every configuration. On the code this fails
  with recurring rules alone. The days are concatenated as they come: Monday
  23:00-01:00 followed by Tuesday 00:00-01:00 gives 23:00, 23:30, 00:00, 00:30 and then
  00:00, 00:30 again. And slots are stepped on the organizer's wall clock: a Sunday rule
  01:00-04:00 in New York on 2025-03-09, when 02:00 to 03:00 is skipped, gives slots at
  06:00, 06:30, 07:00, 07:30, 07:00, 07:30 UTC.
\<close>

theorem start_instants_not_ordered_counterexample:
  "(case collect_all_slots (ex_db [ex_rule 0 1380 60, ex_rule 1 0 60] [] [])
           ex_zones ex_defaults ex_organizer ex_event ex_day (ex_day + 1) ''UTC'' ''UTC'' 1 of
      Returns all_slots \<Rightarrow> map (\<lambda>s. to_instant utc_zone (start_time s)) all_slots
    | _ \<Rightarrow> []) =
     [combine ex_day 1380, combine ex_day 1410, combine ex_day 1440, combine ex_day 1470,
      combine ex_day 1440, combine ex_day 1470] \<and>
   \<not> sorted [combine ex_day 1380, combine ex_day 1410, combine ex_day 1440,
       combine ex_day 1470, combine ex_day 1440, combine ex_day 1470] \<and>
   (case collect_all_slots (ex_db [ex_rule 6 60 240] [] []) ex_zones_ny ex_defaults
           ex_organizer_ny ex_event 739319 739319 ''America/New_York'' ''UTC'' 1 of
      Returns all_slots \<Rightarrow> map (\<lambda>s. to_instant ny_zone (start_time s)) all_slots
    | _ \<Rightarrow> []) =
     [combine 739319 360, combine 739319 390, combine 739319 420, combine 739319 450,
      combine 739319 420, combine 739319 450] \<and>
   \<not> sorted [combine 739319 360, combine 739319 390, combine 739319 420,
       combine 739319 450, combine 739319 420, combine 739319 450]"
proof -
  have a: "(case collect_all_slots (ex_db [ex_rule 0 1380 60, ex_rule 1 0 60] [] [])
           ex_zones ex_defaults ex_organizer ex_event ex_day (ex_day + 1) ''UTC'' ''UTC'' 1 of
      Returns all_slots \<Rightarrow> map (\<lambda>s. to_instant utc_zone (start_time s)) all_slots
    | _ \<Rightarrow> []) =
     [combine ex_day 1380, combine ex_day 1410, combine ex_day 1440, combine ex_day 1470,
      combine ex_day 1440, combine ex_day 1470]"
    using midnight_span_breaks_day_order
    by (simp add: ex_slot_at_def to_instant_def utc_zone_def)
  have b: "(case collect_all_slots (ex_db [ex_rule 6 60 240] [] []) ex_zones_ny ex_defaults
           ex_organizer_ny ex_event 739319 739319 ''America/New_York'' ''UTC'' 1 of
      Returns all_slots \<Rightarrow> map (\<lambda>s. to_instant ny_zone (start_time s)) all_slots
    | _ \<Rightarrow> []) =
     [combine 739319 360, combine 739319 390, combine 739319 420, combine 739319 450,
      combine 739319 420, combine 739319 450]"
    using skipped_hour_breaks_instant_order by simp
  have c: "\<not> sorted [combine ex_day 1380, combine ex_day 1410, combine ex_day 1440,
       combine ex_day 1470, combine ex_day 1440, combine ex_day 1470]"
    "\<not> sorted [combine 739319 360, combine 739319 390, combine 739319 420,
       combine 739319 450, combine 739319 420, combine 739319 450]"
    by (simp_all add: combine_def)
  from a b c show ?thesis by blast
qed

end
